theory Spec2Isabelle
  imports Complex_Main
begin

section \<open>Vectors, quaternions and matrices of the GLM library\<close>

text \<open>
  The scene graph of \<open>Graph.cpp\<close> computes with \<open>glm::vec3\<close>, \<open>glm::vec4\<close>, \<open>glm::quat\<close>
  and \<open>glm::mat4\<close> over \<open>float\<close>. The scalar type is a type variable here, with the
  arithmetic operations it needs and no algebraic law: no theorem below uses
  associativity, commutativity or exactness of the scalar arithmetic unless its statement
  fixes the scalar type. The GLM operations follow the library's definitions; a matrix is
  stored by columns, and \<open>glm::quat\<close>'s four-scalar constructor takes \<open>w\<close> first.
\<close>

datatype 'a vec3 = Vec3 (vx: 'a) (vy: 'a) (vz: 'a)

datatype 'a vec4 = Vec4 (px: 'a) (py: 'a) (pz: 'a) (pw: 'a)

datatype 'a quat = Quat (qw: 'a) (qx: 'a) (qy: 'a) (qz: 'a)

datatype 'a mat4 = Mat4 (col0: "'a vec4") (col1: "'a vec4") (col2: "'a vec4") (col3: "'a vec4")

definition vec3_splat :: "'a \<Rightarrow> 'a vec3" where
  \<comment> \<open>\<open>vec3(s)\<close>: every component is \<open>s\<close>.\<close>
  "vec3_splat s = Vec3 s s s"

definition vec4_of :: "'a vec3 \<Rightarrow> 'a \<Rightarrow> 'a vec4" where
  \<comment> \<open>\<open>vec4(v, w)\<close>\<close>
  "vec4_of v w = Vec4 (vx v) (vy v) (vz v) w"

definition vec3_of :: "'a vec4 \<Rightarrow> 'a vec3" where
  \<comment> \<open>\<open>vec3(v)\<close> of a four-vector drops the last component.\<close>
  "vec3_of v = Vec3 (px v) (py v) (pz v)"

definition vec4_add :: "'a::plus vec4 \<Rightarrow> 'a vec4 \<Rightarrow> 'a vec4" where
  "vec4_add a b = Vec4 (px a + px b) (py a + py b) (pz a + pz b) (pw a + pw b)"

definition vec4_sub :: "'a::minus vec4 \<Rightarrow> 'a vec4 \<Rightarrow> 'a vec4" where
  "vec4_sub a b = Vec4 (px a - px b) (py a - py b) (pz a - pz b) (pw a - pw b)"

definition vec4_scale :: "'a::times vec4 \<Rightarrow> 'a \<Rightarrow> 'a vec4" where
  \<comment> \<open>\<open>v * s\<close>\<close>
  "vec4_scale v s = Vec4 (px v * s) (py v * s) (pz v * s) (pw v * s)"

definition vec4_div :: "'a::inverse vec4 \<Rightarrow> 'a \<Rightarrow> 'a vec4" where
  \<comment> \<open>\<open>v /= s\<close>: all four components are divided.\<close>
  "vec4_div v s = Vec4 (px v / s) (py v / s) (pz v / s) (pw v / s)"

definition dot3 :: "'a::{plus,times} vec3 \<Rightarrow> 'a vec3 \<Rightarrow> 'a" where
  \<comment> \<open>\<open>glm::dot\<close> on three-vectors\<close>
  "dot3 a b = vx a * vx b + vy a * vy b + vz a * vz b"

definition length3 :: "('a \<Rightarrow> 'a) \<Rightarrow> 'a::{plus,times} vec3 \<Rightarrow> 'a" where
  \<comment> \<open>\<open>glm::length(v) = sqrt(dot(v, v))\<close>; the square root of the scalar type is the
      parameter \<open>sqrt_f\<close>.\<close>
  "length3 sqrt_f v = sqrt_f (dot3 v v)"

definition mat4_diag :: "'a::zero \<Rightarrow> 'a mat4" where
  \<comment> \<open>\<open>mat4(s)\<close>: \<open>s\<close> on the diagonal, zero elsewhere; \<open>mat4(1.0f)\<close> is the identity.\<close>
  "mat4_diag s = Mat4 (Vec4 s 0 0 0) (Vec4 0 s 0 0) (Vec4 0 0 s 0) (Vec4 0 0 0 s)"

definition row :: "'a mat4 \<Rightarrow> nat \<Rightarrow> 'a vec4" where
  \<comment> \<open>\<open>glm::row(m, i)\<close>: the \<open>i\<close>-th component of each column.\<close>
  "row m i =
     (let sel = (if i = 0 then px else if i = 1 then py else if i = 2 then pz else pw)
      in Vec4 (sel (col0 m)) (sel (col1 m)) (sel (col2 m)) (sel (col3 m)))"

definition mat4_mul_vec4 :: "'a::{plus,times} mat4 \<Rightarrow> 'a vec4 \<Rightarrow> 'a vec4" where
  \<comment> \<open>\<open>m * v\<close>: the columns of \<open>m\<close> weighted by the components of \<open>v\<close>.\<close>
  "mat4_mul_vec4 m v =
     vec4_add (vec4_add (vec4_scale (col0 m) (px v)) (vec4_scale (col1 m) (py v)))
              (vec4_add (vec4_scale (col2 m) (pz v)) (vec4_scale (col3 m) (pw v)))"

definition mat4_mul_col :: "'a::{plus,times} mat4 \<Rightarrow> 'a vec4 \<Rightarrow> 'a vec4" where
  \<comment> \<open>one column of the matrix product \<open>m1 * m2\<close>\<close>
  "mat4_mul_col m c =
     vec4_add (vec4_add (vec4_add (vec4_scale (col0 m) (px c)) (vec4_scale (col1 m) (py c)))
                        (vec4_scale (col2 m) (pz c)))
              (vec4_scale (col3 m) (pw c))"

definition mat4_mul :: "'a::{plus,times} mat4 \<Rightarrow> 'a mat4 \<Rightarrow> 'a mat4" where
  \<comment> \<open>\<open>m1 * m2\<close>\<close>
  "mat4_mul m1 m2 =
     Mat4 (mat4_mul_col m1 (col0 m2)) (mat4_mul_col m1 (col1 m2))
          (mat4_mul_col m1 (col2 m2)) (mat4_mul_col m1 (col3 m2))"

definition translate :: "'a::{plus,times} mat4 \<Rightarrow> 'a vec3 \<Rightarrow> 'a mat4" where
  \<comment> \<open>\<open>glm::translate(m, v)\<close>: the last column becomes
      \<open>m[0] * v[0] + m[1] * v[1] + m[2] * v[2] + m[3]\<close>.\<close>
  "translate m v =
     Mat4 (col0 m) (col1 m) (col2 m)
          (vec4_add (vec4_add (vec4_add (vec4_scale (col0 m) (vx v)) (vec4_scale (col1 m) (vy v)))
                              (vec4_scale (col2 m) (vz v)))
                    (col3 m))"

definition scale_mat :: "'a::times mat4 \<Rightarrow> 'a vec3 \<Rightarrow> 'a mat4" where
  \<comment> \<open>\<open>glm::scale(m, v)\<close>: the first three columns are scaled.\<close>
  "scale_mat m v =
     Mat4 (vec4_scale (col0 m) (vx v)) (vec4_scale (col1 m) (vy v))
          (vec4_scale (col2 m) (vz v)) (col3 m)"

definition mat4_cast :: "'a::{zero,one,plus,minus,times} quat \<Rightarrow> 'a mat4" where
  \<comment> \<open>\<open>glm::mat4_cast(q)\<close>: the rotation matrix of a quaternion; the library's constant
      \<open>T(2)\<close> is written \<open>1 + 1\<close>.\<close>
  "mat4_cast q =
     (let two = 1 + 1;
          qxx = qx q * qx q; qyy = qy q * qy q; qzz = qz q * qz q;
          qxz = qx q * qz q; qxy = qx q * qy q; qyz = qy q * qz q;
          qwx = qw q * qx q; qwy = qw q * qy q; qwz = qw q * qz q
      in Mat4 (Vec4 (1 - two * (qyy + qzz)) (two * (qxy + qwz)) (two * (qxz - qwy)) 0)
              (Vec4 (two * (qxy - qwz)) (1 - two * (qxx + qzz)) (two * (qyz + qwx)) 0)
              (Vec4 (two * (qxz + qwy)) (two * (qyz - qwx)) (1 - two * (qxx + qyy)) 0)
              (Vec4 0 0 0 1))"

definition quat_identity :: "'a::{zero,one} quat" where
  \<comment> \<open>\<open>quat()\<close>: the default quaternion, taken as the identity rotation \<open>w = 1\<close>,
      \<open>x = y = z = 0\<close> (the spec: "created with identity values"). A GLM that
      value-initialises it to zeros gives the same matrix, see C10.\<close>
  "quat_identity = Quat 1 0 0 0"

section \<open>Bounding boxes\<close>

record 'a BoundingBox =
  bb_min :: "'a vec3"
  bb_max :: "'a vec3"

section \<open>Transform\<close>

record 'a Transform =
  position :: "'a vec3"
  rotation :: "'a quat"
  scale :: "'a vec3"
  localMatrix :: "'a mat4"
  dirty :: bool

definition Transform_new :: "'a::{zero,one} Transform" where
  \<comment> \<open>the constructor \<open>Transform()\<close>\<close>
  "Transform_new =
     \<lparr>position = vec3_splat 0, rotation = quat_identity, scale = vec3_splat 1,
      localMatrix = mat4_diag 1, dirty = True\<rparr>"

definition setPosition :: "'a vec3 \<Rightarrow> 'a Transform \<Rightarrow> 'a Transform" where
  "setPosition pos t = t\<lparr>position := pos, dirty := True\<rparr>"

definition setRotation :: "'a quat \<Rightarrow> 'a Transform \<Rightarrow> 'a Transform" where
  "setRotation rot t = t\<lparr>rotation := rot, dirty := True\<rparr>"

definition setScale :: "'a vec3 \<Rightarrow> 'a Transform \<Rightarrow> 'a Transform" where
  "setScale scl t = t\<lparr>scale := scl, dirty := True\<rparr>"

definition getPosition :: "'a Transform \<Rightarrow> 'a vec3" where
  "getPosition t = position t"

definition getRotation :: "'a Transform \<Rightarrow> 'a quat" where
  "getRotation t = rotation t"

definition getScale :: "'a Transform \<Rightarrow> 'a vec3" where
  "getScale t = scale t"

definition trs :: "'a::{zero,one,plus,minus,times} vec3 \<Rightarrow> 'a quat \<Rightarrow> 'a vec3 \<Rightarrow> 'a mat4" where
  \<comment> \<open>the expression \<open>t * r * s\<close> of \<open>getMatrix\<close>, which C++ reads as \<open>(t * r) * s\<close>\<close>
  "trs pos rot scl =
     (let t = translate (mat4_diag 1) pos;
          r = mat4_cast rot;
          s = scale_mat (mat4_diag 1) scl
      in mat4_mul (mat4_mul t r) s)"

definition getMatrix :: "'a::{zero,one,plus,minus,times} Transform \<Rightarrow> 'a mat4 \<times> 'a Transform" where
  \<comment> \<open>\<open>getMatrix\<close> is \<open>const\<close> but writes the \<open>mutable\<close> fields \<open>localMatrix\<close> and
      \<open>dirty\<close>: it returns the matrix and the updated object.\<close>
  "getMatrix t =
     (if dirty t
      then (let t' = t\<lparr>localMatrix := trs (position t) (rotation t) (scale t), dirty := False\<rparr>
            in (localMatrix t', t'))
      else (localMatrix t, t))"

text \<open>A call sequence on one \<open>Transform\<close>: the three setters and the read.\<close>

datatype 'a transform_call =
    SetPosition "'a vec3"
  | SetRotation "'a quat"
  | SetScale "'a vec3"
  | GetMatrix

fun call :: "'a::{zero,one,plus,minus,times} transform_call \<Rightarrow> 'a Transform \<Rightarrow> 'a Transform" where
  "call (SetPosition v) t = setPosition v t"
| "call (SetRotation q) t = setRotation q t"
| "call (SetScale v) t = setScale v t"
| "call GetMatrix t = snd (getMatrix t)"

fun calls :: "'a::{zero,one,plus,minus,times} transform_call list \<Rightarrow> 'a Transform \<Rightarrow> 'a Transform" where
  "calls [] t = t"
| "calls (c # cs) t = calls cs (call c t)"

fun is_mutation :: "'a transform_call \<Rightarrow> bool" where
  "is_mutation GetMatrix = False"
| "is_mutation _ = True"

text \<open>The component values most recently set by a call sequence, from given initial ones.\<close>

fun latest_position :: "'a transform_call list \<Rightarrow> 'a vec3 \<Rightarrow> 'a vec3" where
  "latest_position [] p = p"
| "latest_position (SetPosition v # cs) p = latest_position cs v"
| "latest_position (_ # cs) p = latest_position cs p"

fun latest_rotation :: "'a transform_call list \<Rightarrow> 'a quat \<Rightarrow> 'a quat" where
  "latest_rotation [] q = q"
| "latest_rotation (SetRotation v # cs) q = latest_rotation cs v"
| "latest_rotation (_ # cs) q = latest_rotation cs q"

fun latest_scale :: "'a transform_call list \<Rightarrow> 'a vec3 \<Rightarrow> 'a vec3" where
  "latest_scale [] s = s"
| "latest_scale (SetScale v # cs) s = latest_scale cs v"
| "latest_scale (_ # cs) s = latest_scale cs s"

definition cache_valid :: "'a::{zero,one,plus,minus,times} Transform \<Rightarrow> bool" where
  \<comment> \<open>the invariant of the private fields: a clean cache holds the composition\<close>
  "cache_valid t \<longleftrightarrow> (dirty t \<or> localMatrix t = trs (position t) (rotation t) (scale t))"

section \<open>Level of detail\<close>

record 'a LODLevel =
  distanceThreshold :: 'a
  meshName :: string

record 'a LOD =
  levels :: "'a LODLevel list"

definition addLevel :: "'a::linorder \<Rightarrow> string \<Rightarrow> 'a LOD \<Rightarrow> 'a LOD" where
  \<comment> \<open>\<open>push_back\<close>, then \<open>std::sort\<close> by threshold. The thresholds are in a linear order
      (no NaN). \<open>std::sort\<close> leaves the order of levels with equal thresholds open;
      \<open>sort_key\<close> keeps it.\<close>
  "addLevel distance mesh l =
     l\<lparr>levels := sort_key distanceThreshold
                    (levels l @ [\<lparr>distanceThreshold = distance, meshName = mesh\<rparr>])\<rparr>"

fun first_beyond :: "'a::ord \<Rightarrow> 'a LODLevel list \<Rightarrow> 'a LODLevel option" where
  \<comment> \<open>the loop of \<open>getMesh\<close>: the first level with \<open>distance < lvl.distanceThreshold\<close>\<close>
  "first_beyond distance [] = None"
| "first_beyond distance (lvl # lvls) =
     (if distance < distanceThreshold lvl then Some lvl else first_beyond distance lvls)"

definition getMesh :: "'a::ord LOD \<Rightarrow> 'a \<Rightarrow> string" where
  "getMesh l distance =
     (case first_beyond distance (levels l) of
        Some lvl \<Rightarrow> meshName lvl
      | None \<Rightarrow> (if levels l = [] then '''' else meshName (last (levels l))))"

section \<open>Scene nodes\<close>

text \<open>
  Nodes are shared objects: a \<open>SceneNodePtr\<close> is an address, the store maps the addresses
  of the live objects to their fields, and equality of two pointers is equality of
  addresses. The \<open>weak_ptr\<close> field \<open>parent\<close> is an optional address, which \<open>lock()\<close>
  follows only while its target is live. Every method is called on a live object; on an
  address that is not live the model returns \<open>None\<close>.
\<close>

record 'a SceneNode =
  name :: string
  transform :: "'a Transform"
  parent :: "nat option"
  children :: "nat list"
  boundingBox :: "'a BoundingBox"
  lod :: "'a LOD"
  visible :: bool

type_synonym 'a heap = "nat \<rightharpoonup> 'a SceneNode"

definition SceneNode_new :: "string \<Rightarrow> 'a::{zero,one,uminus} SceneNode" where
  \<comment> \<open>the constructor \<open>SceneNode(n)\<close>; the members without an initialiser are
      default-constructed\<close>
  "SceneNode_new n =
     \<lparr>name = n, transform = Transform_new, parent = None, children = [],
      boundingBox = \<lparr>bb_min = Vec3 (- 1) (- 1) (- 1), bb_max = Vec3 1 1 1\<rparr>,
      lod = \<lparr>levels = []\<rparr>, visible = True\<rparr>"

definition lock :: "'a heap \<Rightarrow> nat option \<Rightarrow> nat option" where
  \<comment> \<open>\<open>weak_ptr::lock()\<close>: null when the pointer is empty or its target is gone\<close>
  "lock h w = (case w of None \<Rightarrow> None
               | Some a \<Rightarrow> (case h a of None \<Rightarrow> None | Some _ \<Rightarrow> Some a))"

definition update_node :: "nat \<Rightarrow> ('a SceneNode \<Rightarrow> 'a SceneNode) \<Rightarrow> 'a heap \<Rightarrow> 'a heap option" where
  \<comment> \<open>a write to the fields of the live object at an address\<close>
  "update_node a f h = (case h a of None \<Rightarrow> None | Some n \<Rightarrow> Some (h(a \<mapsto> f n)))"

definition children_of :: "'a heap \<Rightarrow> nat \<Rightarrow> nat list" where
  "children_of h a = (case h a of None \<Rightarrow> [] | Some n \<Rightarrow> children n)"

definition addChild :: "nat \<Rightarrow> nat \<Rightarrow> 'a heap \<Rightarrow> 'a heap option" where
  \<comment> \<open>\<open>child->parent = shared_from_this(); children.push_back(child);\<close>\<close>
  "addChild this child h =
     (case update_node child (\<lambda>n. n\<lparr>parent := Some this\<rparr>) h of
        None \<Rightarrow> None
      | Some h1 \<Rightarrow> update_node this (\<lambda>n. n\<lparr>children := children n @ [child]\<rparr>) h1)"

text \<open>
  The parameter of \<open>removeChild\<close> is a reference, \<open>const SceneNodePtr&\<close>. The pointer
  variable it names is either outside the vector that is compacted, where it keeps its
  value during the call (as the local \<open>node\<close> of \<open>UI::removeNode\<close>), or it is an element
  of this node's own \<open>children\<close>, which \<open>std::remove\<close> overwrites while it still compares
  against it.
\<close>

datatype child_ref =
    Held nat  \<comment> \<open>a pointer variable outside \<open>children\<close>, holding this address\<close>
  | Slot nat  \<comment> \<open>the element \<open>children[j]\<close> itself\<close>

fun valid_ref :: "child_ref \<Rightarrow> nat list \<Rightarrow> bool" where
  "valid_ref (Held c) xs = True"
| "valid_ref (Slot j) xs = (j < length xs)"

fun read_ref :: "child_ref \<Rightarrow> nat list \<Rightarrow> nat" where
  \<comment> \<open>the value of the referenced variable while the vector holds \<open>xs\<close>\<close>
  "read_ref (Held c) xs = c"
| "read_ref (Slot j) xs = xs ! j"

text \<open>
  \<open>std::remove(first, last, value)\<close> finds the first element equal to \<open>value\<close> and then
  moves every later element that differs from \<open>value\<close> down to the write position; it
  returns the new logical end. \<open>value\<close> is a reference and is read again at every
  comparison: \<open>val xs\<close> is its value while the vector holds \<open>xs\<close>. A moved-from element is
  never read again, neither by the loop nor through the reference, so the move is a copy
  here.
\<close>

fun std_find :: "'b list \<Rightarrow> 'b \<Rightarrow> nat" where
  \<comment> \<open>the index of the first element equal to the value, the length if there is none;
      \<open>std::find\<close> writes nothing, so the value is fixed\<close>
  "std_find [] v = 0"
| "std_find (x # xs) v = (if x = v then 0 else Suc (std_find xs v))"

function remove_loop :: "'b list \<Rightarrow> ('b list \<Rightarrow> 'b) \<Rightarrow> nat \<Rightarrow> nat \<Rightarrow> 'b list \<times> nat" where
  \<comment> \<open>\<open>for (i = first; ++i != last;) if (!(*i == value)) *first++ = std::move(*i);\<close>\<close>
  "remove_loop xs val first i =
     (if Suc i < length xs
      then (if xs ! Suc i \<noteq> val xs
            then remove_loop (xs[first := xs ! Suc i]) val (Suc first) (Suc i)
            else remove_loop xs val first (Suc i))
      else (xs, first))"
  by pat_completeness auto
termination
  by (relation "measure (\<lambda>(xs, val, first, i). length xs - i)") auto

declare remove_loop.simps [simp del]

definition std_remove :: "'b list \<Rightarrow> ('b list \<Rightarrow> 'b) \<Rightarrow> 'b list \<times> nat" where
  "std_remove xs val =
     (let first = std_find xs (val xs)
      in if first \<noteq> length xs then remove_loop xs val first first else (xs, first))"

definition erase_to_end :: "'b list \<Rightarrow> nat \<Rightarrow> 'b list" where
  \<comment> \<open>\<open>v.erase(it, v.end())\<close>\<close>
  "erase_to_end xs k = take k xs"

definition removeChild :: "nat \<Rightarrow> child_ref \<Rightarrow> 'a heap \<Rightarrow> 'a heap option" where
  \<comment> \<open>\<open>children.erase(std::remove(children.begin(), children.end(), child), children.end());\<close>
      a reference to an element that does not exist cannot be passed\<close>
  "removeChild this child h =
     (case h this of
        None \<Rightarrow> None
      | Some n \<Rightarrow>
          if valid_ref child (children n)
          then Some (h(this \<mapsto>
                 n\<lparr>children := (case std_remove (children n) (read_ref child) of
                                   (xs, k) \<Rightarrow> erase_to_end xs k)\<rparr>))
          else None)"

partial_function (option) getWorldMatrix ::
  "nat \<Rightarrow> 'a::{zero,one,plus,minus,times} heap \<Rightarrow> ('a mat4 \<times> 'a heap) option" where
  \<comment> \<open>the recursion follows the parent references, so it need not end; \<open>getMatrix\<close>
      refreshes the cache of every node on the way. C++ leaves the order of the two
      operands of \<open>*\<close> open; they touch different objects whenever the call returns,
      and the parent is taken first here.\<close>
  "getWorldMatrix this h =
     (case h this of
        None \<Rightarrow> None
      | Some n \<Rightarrow>
          (case lock h (parent n) of
             Some p \<Rightarrow>
               Option.bind (getWorldMatrix p h)
                 (\<lambda>(pm, h1).
                    (case h1 this of
                       None \<Rightarrow> None
                     | Some n1 \<Rightarrow>
                         (case getMatrix (transform n1) of
                            (m, t') \<Rightarrow> Some (mat4_mul pm m, h1(this \<mapsto> n1\<lparr>transform := t'\<rparr>)))))
           | None \<Rightarrow>
               (case getMatrix (transform n) of
                  (m, t') \<Rightarrow> Some (m, h(this \<mapsto> n\<lparr>transform := t'\<rparr>)))))"

definition local_matrix :: "'a::{zero,one,plus,minus,times} SceneNode \<Rightarrow> 'a mat4" where
  \<comment> \<open>what \<open>transform.getMatrix()\<close> returns on a node\<close>
  "local_matrix n = fst (getMatrix (transform n))"

definition refreshed :: "'a::{zero,one,plus,minus,times} SceneNode \<Rightarrow> 'a SceneNode" where
  \<comment> \<open>the node after \<open>transform.getMatrix()\<close>\<close>
  "refreshed n = n\<lparr>transform := snd (getMatrix (transform n))\<rparr>"

text \<open>
  The chain of live parents of a node ends when, following \<open>parent.lock()\<close>, a node
  without a live parent is reached; a chain that runs into a cycle does not end. The
  world matrix of a node whose chain ends is the product of the local matrices from the
  root down to the node, each parent on the left.
\<close>

inductive chain_ends :: "'a heap \<Rightarrow> nat \<Rightarrow> bool" for h :: "'a heap" where
  root: "h a = Some n \<Longrightarrow> lock h (parent n) = None \<Longrightarrow> chain_ends h a"
| step: "h a = Some n \<Longrightarrow> lock h (parent n) = Some p \<Longrightarrow> chain_ends h p \<Longrightarrow> chain_ends h a"

code_pred chain_ends .

inductive world_matrix :: "'a::{zero,one,plus,minus,times} heap \<Rightarrow> nat \<Rightarrow> 'a mat4 \<Rightarrow> bool"
  for h :: "'a heap" where
  root: "h a = Some n \<Longrightarrow> lock h (parent n) = None \<Longrightarrow> world_matrix h a (local_matrix n)"
| step: "h a = Some n \<Longrightarrow> lock h (parent n) = Some p \<Longrightarrow> world_matrix h p pm \<Longrightarrow>
         world_matrix h a (mat4_mul pm (local_matrix n))"

code_pred world_matrix .

section \<open>Frustum culling\<close>

text \<open>The array of six planes is a list; \<open>extractPlanes\<close> fills it with six entries.\<close>

record 'a FrustumCuller =
  planes :: "'a vec4 list"

definition normalize_plane :: "('a \<Rightarrow> 'a) \<Rightarrow> 'a::{plus,times,inverse} vec4 \<Rightarrow> 'a vec4" where
  \<comment> \<open>\<open>float l = glm::length(glm::vec3(p)); p /= l;\<close>\<close>
  "normalize_plane sqrt_f p = (let l = length3 sqrt_f (vec3_of p) in vec4_div p l)"

definition extractPlanes :: "('a \<Rightarrow> 'a) \<Rightarrow> 'a::{plus,minus,times,inverse} mat4 \<Rightarrow> 'a vec4 list" where
  "extractPlanes sqrt_f m =
     map (normalize_plane sqrt_f)
       [vec4_add (row m 3) (row m 0), vec4_sub (row m 3) (row m 0),
        vec4_add (row m 3) (row m 1), vec4_sub (row m 3) (row m 1),
        vec4_add (row m 3) (row m 2), vec4_sub (row m 3) (row m 2)]"

definition FrustumCuller_new :: "('a \<Rightarrow> 'a) \<Rightarrow> 'a::{plus,minus,times,inverse} mat4 \<Rightarrow> 'a FrustumCuller" where
  "FrustumCuller_new sqrt_f projView = \<lparr>planes = extractPlanes sqrt_f projView\<rparr>"

definition corners :: "'a BoundingBox \<Rightarrow> 'a vec3 list" where
  \<comment> \<open>the array \<open>pts\<close> of \<open>isVisible\<close>\<close>
  "corners bb =
     [Vec3 (vx (bb_min bb)) (vy (bb_min bb)) (vz (bb_min bb)),
      Vec3 (vx (bb_max bb)) (vy (bb_min bb)) (vz (bb_min bb)),
      Vec3 (vx (bb_min bb)) (vy (bb_max bb)) (vz (bb_min bb)),
      Vec3 (vx (bb_max bb)) (vy (bb_max bb)) (vz (bb_min bb)),
      Vec3 (vx (bb_min bb)) (vy (bb_min bb)) (vz (bb_max bb)),
      Vec3 (vx (bb_max bb)) (vy (bb_min bb)) (vz (bb_max bb)),
      Vec3 (vx (bb_min bb)) (vy (bb_max bb)) (vz (bb_max bb)),
      Vec3 (vx (bb_max bb)) (vy (bb_max bb)) (vz (bb_max bb))]"

definition signed_distance :: "'a::{zero,one,plus,times} vec4 \<Rightarrow> 'a mat4 \<Rightarrow> 'a vec3 \<Rightarrow> 'a" where
  \<comment> \<open>\<open>glm::dot(glm::vec3(plane), glm::vec3(wp)) + plane.w\<close> with \<open>wp = wm * vec4(p, 1.0f)\<close>\<close>
  "signed_distance plane wm p =
     (let wp = mat4_mul_vec4 wm (vec4_of p 1)
      in dot3 (vec3_of plane) (vec3_of wp) + pw plane)"

fun count_outside :: "'a::{zero,one,plus,times,ord} vec4 \<Rightarrow> 'a mat4 \<Rightarrow> 'a vec3 list \<Rightarrow> int \<Rightarrow> int" where
  \<comment> \<open>the inner loop, which counts in \<open>out\<close>\<close>
  "count_outside plane wm [] out = out"
| "count_outside plane wm (p # ps) out =
     count_outside plane wm ps (if signed_distance plane wm p < 0 then out + 1 else out)"

fun test_planes :: "'a::{zero,one,plus,times,ord} vec4 list \<Rightarrow> 'a mat4 \<Rightarrow> 'a vec3 list \<Rightarrow> bool" where
  \<comment> \<open>the loop over the planes: false at the first plane with \<open>out == 8\<close>\<close>
  "test_planes [] wm pts = True"
| "test_planes (plane # rest) wm pts =
     (if count_outside plane wm pts 0 = 8 then False else test_planes rest wm pts)"

definition isVisible ::
  "'a::{zero,one,plus,minus,times,ord} FrustumCuller \<Rightarrow> nat \<Rightarrow> 'a heap \<Rightarrow> (bool \<times> 'a heap) option" where
  "isVisible culler node h =
     (case getWorldMatrix node h of
        None \<Rightarrow> None
      | Some (wm, h1) \<Rightarrow>
          (case h1 node of
             None \<Rightarrow> None
           | Some n \<Rightarrow>
               (let b = test_planes (planes culler) wm (corners (boundingBox n))
                in Some (b, h1(node \<mapsto> n\<lparr>visible := b\<rparr>)))))"

section \<open>Text streams\<close>

text \<open>
  An input stream is the characters not yet read and the fail bit. A formatted
  extraction on a stream that has failed does nothing and leaves its variable as it was;
  otherwise it skips white space, fails at the end of the input (again leaving the
  variable), and else reads a word. The extraction of a number reads the word up to the
  next white space and converts it: a program that reads \<open>12abc\<close> as the number 12
  followed by \<open>abc\<close> is outside this model, and no text written by the serializer or used
  in an example below has such a word. When the word is no numeral the variable becomes
  zero and the stream fails.
\<close>

record istream =
  chars :: string
  failbit :: bool

definition isspace :: "char \<Rightarrow> bool" where
  \<comment> \<open>space, tab, line feed, vertical tab, form feed, carriage return\<close>
  "isspace c \<longleftrightarrow> c \<in> set [CHR '' '', CHR 0x09, CHR 0x0A, CHR 0x0B, CHR 0x0C, CHR 0x0D]"

definition istream_of :: "string \<Rightarrow> istream" where
  "istream_of content = \<lparr>chars = content, failbit = False\<rparr>"

definition next_word :: "string \<Rightarrow> (string \<times> string) option" where
  \<comment> \<open>skip the white space, then split at the next white space; \<open>None\<close> at the end of
      the input\<close>
  "next_word u =
     (case dropWhile isspace u of
        [] \<Rightarrow> None
      | c # cs \<Rightarrow>
          Some (takeWhile (\<lambda>x. \<not> isspace x) (c # cs), dropWhile (\<lambda>x. \<not> isspace x) (c # cs)))"

definition extract_string :: "istream \<Rightarrow> string option \<times> istream" where
  \<comment> \<open>\<open>is >> str\<close>; \<open>None\<close> when the variable keeps its value\<close>
  "extract_string s =
     (if failbit s then (None, s)
      else (case next_word (chars s) of
              None \<Rightarrow> (None, s\<lparr>chars := [], failbit := True\<rparr>)
            | Some (w, rest) \<Rightarrow> (Some w, s\<lparr>chars := rest\<rparr>)))"

text \<open>
  The text form of a \<open>float\<close> is a parameter: \<open>show_float\<close> is what \<open>os << x\<close> writes and
  \<open>read_float\<close> the value of a numeral, \<open>None\<close> for a word that is no numeral.
\<close>

record 'a codec =
  show_float :: "'a \<Rightarrow> string"
  read_float :: "string \<Rightarrow> 'a option"

definition extract_float :: "'a::zero codec \<Rightarrow> istream \<Rightarrow> 'a option \<times> istream" where
  \<comment> \<open>\<open>is >> x\<close> for a \<open>float\<close>\<close>
  "extract_float codec s =
     (if failbit s then (None, s)
      else (case next_word (chars s) of
              None \<Rightarrow> (None, s\<lparr>chars := [], failbit := True\<rparr>)
            | Some (w, rest) \<Rightarrow>
                (case read_float codec w of
                   Some v \<Rightarrow> (Some v, s\<lparr>chars := rest\<rparr>)
                 | None \<Rightarrow> (Some 0, s\<lparr>chars := rest, failbit := True\<rparr>))))"

subsection \<open>Decimal integers\<close>

definition digit_char :: "nat \<Rightarrow> char" where
  "digit_char d = ''0123456789'' ! d"

fun digit_value :: "char \<Rightarrow> nat option" where
  "digit_value c =
     (if c = CHR ''0'' then Some 0 else if c = CHR ''1'' then Some 1
      else if c = CHR ''2'' then Some 2 else if c = CHR ''3'' then Some 3
      else if c = CHR ''4'' then Some 4 else if c = CHR ''5'' then Some 5
      else if c = CHR ''6'' then Some 6 else if c = CHR ''7'' then Some 7
      else if c = CHR ''8'' then Some 8 else if c = CHR ''9'' then Some 9
      else None)"

function show_nat :: "nat \<Rightarrow> string" where
  \<comment> \<open>what \<open>os << n\<close> writes for an unsigned integer\<close>
  "show_nat n = (if n < 10 then [digit_char n] else show_nat (n div 10) @ [digit_char (n mod 10)])"
  by pat_completeness auto
termination
  by (relation "measure id") auto

declare show_nat.simps [simp del]

definition show_int :: "int \<Rightarrow> string" where
  "show_int i = (if i < 0 then CHR ''-'' # show_nat (nat (- i)) else show_nat (nat i))"

fun parse_digits :: "string \<Rightarrow> nat \<Rightarrow> nat option" where
  "parse_digits [] acc = Some acc"
| "parse_digits (c # cs) acc =
     (case digit_value c of None \<Rightarrow> None | Some d \<Rightarrow> parse_digits cs (10 * acc + d))"

definition parse_nat :: "string \<Rightarrow> nat option" where
  "parse_nat w = (if w = [] then None else parse_digits w 0)"

definition parse_int :: "string \<Rightarrow> int option" where
  \<comment> \<open>a decimal numeral with an optional sign\<close>
  "parse_int w =
     (case w of
        [] \<Rightarrow> None
      | c # cs \<Rightarrow>
          if c = CHR ''-'' then map_option (\<lambda>n. - int n) (parse_nat cs)
          else if c = CHR ''+'' then map_option int (parse_nat cs)
          else map_option int (parse_nat w))"

definition INT_MAX :: int where
  "INT_MAX = 2147483647"

definition INT_MIN :: int where
  "INT_MIN = - 2147483648"

definition extract_int :: "istream \<Rightarrow> int option \<times> istream" where
  \<comment> \<open>\<open>is >> n\<close> for an \<open>int\<close>: a numeral out of range gives the nearest bound and fails\<close>
  "extract_int s =
     (if failbit s then (None, s)
      else (case next_word (chars s) of
              None \<Rightarrow> (None, s\<lparr>chars := [], failbit := True\<rparr>)
            | Some (w, rest) \<Rightarrow>
                (case parse_int w of
                   None \<Rightarrow> (Some 0, s\<lparr>chars := rest, failbit := True\<rparr>)
                 | Some v \<Rightarrow>
                     if INT_MAX < v then (Some INT_MAX, s\<lparr>chars := rest, failbit := True\<rparr>)
                     else if v < INT_MIN then (Some INT_MIN, s\<lparr>chars := rest, failbit := True\<rparr>)
                     else (Some v, s\<lparr>chars := rest\<rparr>))))"

definition int_codec :: "int codec" where
  \<comment> \<open>the text form of the integer-valued floats of magnitude below \<open>10\<^sup>6\<close>, which \<open>os << x\<close>
      writes as decimal integers\<close>
  "int_codec = \<lparr>show_float = show_int, read_float = parse_int\<rparr>"

section \<open>Serializer\<close>

definition newline :: string where
  "newline = [CHR 0x0A]"

definition write_vec3 :: "'a codec \<Rightarrow> 'a vec3 \<Rightarrow> string" where
  \<comment> \<open>\<open>v.x << " " << v.y << " " << v.z\<close>\<close>
  "write_vec3 codec v =
     show_float codec (vx v) @ '' '' @ show_float codec (vy v) @ '' '' @ show_float codec (vz v)"

definition write_rotation :: "'a codec \<Rightarrow> 'a quat \<Rightarrow> string" where
  \<comment> \<open>\<open>rot.x << " " << rot.y << " " << rot.z << " " << rot.w\<close>\<close>
  "write_rotation codec q =
     show_float codec (qx q) @ '' '' @ show_float codec (qy q) @ '' ''
       @ show_float codec (qz q) @ '' '' @ show_float codec (qw q)"

definition write_level :: "'a codec \<Rightarrow> string \<Rightarrow> 'a LODLevel \<Rightarrow> string" where
  \<comment> \<open>\<open>os << ind << "    " << lvl.distanceThreshold << " " << lvl.meshName << "\n"\<close>\<close>
  "write_level codec ind lvl =
     ind @ ''    '' @ show_float codec (distanceThreshold lvl) @ '' '' @ meshName lvl @ newline"

definition write_body :: "'a codec \<Rightarrow> 'a SceneNode \<Rightarrow> nat \<Rightarrow> string" where
  \<comment> \<open>the lines from \<open>Position\<close> to \<open>Children\<close>\<close>
  "write_body codec node indent =
     (let ind = replicate indent CHR '' '';
          pos = getPosition (transform node);
          rot = getRotation (transform node);
          scl = getScale (transform node)
      in ind @ ''  Position '' @ write_vec3 codec pos @ newline
         @ ind @ ''  Rotation '' @ write_rotation codec rot @ newline
         @ ind @ ''  Scale '' @ write_vec3 codec scl @ newline
         @ ind @ ''  LODLevels '' @ show_nat (length (levels (lod node))) @ newline
         @ concat (map (write_level codec ind) (levels (lod node)))
         @ ind @ ''  BoundingBox '' @ write_vec3 codec (bb_min (boundingBox node)) @ '' ''
             @ write_vec3 codec (bb_max (boundingBox node)) @ newline
         @ ind @ ''  Children '' @ show_nat (length (children node)) @ newline)"

definition write_fields :: "'a codec \<Rightarrow> 'a SceneNode \<Rightarrow> nat \<Rightarrow> string" where
  \<comment> \<open>what \<open>serializeNode\<close> writes before it descends into the children\<close>
  "write_fields codec node indent =
     replicate indent CHR '' '' @ ''Node '' @ name node @ newline @ write_body codec node indent"

primrec serializeNode :: "nat \<Rightarrow> 'a codec \<Rightarrow> 'a heap \<Rightarrow> nat \<Rightarrow> nat \<Rightarrow> string option" where
  \<comment> \<open>the text appended to the stream; the recursion follows the children, so it has
      fuel, and \<open>None\<close> is no result\<close>
  "serializeNode 0 codec h node indent = None"
| "serializeNode (Suc fuel) codec h node indent =
     (case h node of
        None \<Rightarrow> None
      | Some n \<Rightarrow>
          (case those (map (\<lambda>c. serializeNode fuel codec h c (indent + 4)) (children n)) of
             None \<Rightarrow> None
           | Some subs \<Rightarrow> Some (write_fields codec n indent @ concat subs)))"

definition serialize :: "nat \<Rightarrow> 'a codec \<Rightarrow> 'a heap \<Rightarrow> nat \<Rightarrow> string option" where
  \<comment> \<open>the content of the file written by \<open>serialize(root, filename)\<close>\<close>
  "serialize fuel codec h rt = serializeNode fuel codec h rt 0"

section \<open>Deserializer\<close>

datatype error = Uninitialized_read | Dead_object

record 'a pstate =
  input :: istream
  store :: "'a heap"
  next_free :: nat

definition make_shared :: "'a SceneNode \<Rightarrow> 'a pstate \<Rightarrow> nat \<times> 'a pstate" where
  \<comment> \<open>a new object at an address not in use\<close>
  "make_shared obj st =
     (next_free st, st\<lparr>store := (store st)(next_free st \<mapsto> obj), next_free := Suc (next_free st)\<rparr>)"

definition set_node :: "nat \<Rightarrow> ('a SceneNode \<Rightarrow> 'a SceneNode) \<Rightarrow> 'a heap \<Rightarrow> 'a heap" where
  \<comment> \<open>a write to the fields of the object just made\<close>
  "set_node a f h = h(a := map_option f (h a))"

definition read_vec3 :: "'a::zero codec \<Rightarrow> istream \<Rightarrow> error + ('a vec3 \<times> istream)" where
  \<comment> \<open>\<open>is >> tok; float x,y,z; is >> x >> y >> z;\<close> and the use of \<open>{x,y,z}\<close>\<close>
  "read_vec3 codec s =
     (case extract_string s of (tok, s0) \<Rightarrow>
      case extract_float codec s0 of (x, s1) \<Rightarrow>
      case extract_float codec s1 of (y, s2) \<Rightarrow>
      case extract_float codec s2 of (z, s3) \<Rightarrow>
        (case (x, y, z) of
           (Some a, Some b, Some c) \<Rightarrow> Inr (Vec3 a b c, s3)
         | _ \<Rightarrow> Inl Uninitialized_read))"

definition read_rotation :: "'a::zero codec \<Rightarrow> istream \<Rightarrow> error + ('a quat \<times> istream)" where
  \<comment> \<open>\<open>is >> tok; float rx,ry,rz,rw; is >> rx >> ry >> rz >> rw;\<close> and the quaternion
      \<open>{rw,rx,ry,rz}\<close>, whose constructor takes \<open>w\<close> first\<close>
  "read_rotation codec s =
     (case extract_string s of (tok, s0) \<Rightarrow>
      case extract_float codec s0 of (rx, s1) \<Rightarrow>
      case extract_float codec s1 of (ry, s2) \<Rightarrow>
      case extract_float codec s2 of (rz, s3) \<Rightarrow>
      case extract_float codec s3 of (rw, s4) \<Rightarrow>
        (case (rx, ry, rz, rw) of
           (Some x, Some y, Some z, Some w) \<Rightarrow> Inr (Quat w x y z, s4)
         | _ \<Rightarrow> Inl Uninitialized_read))"

fun lod_loop :: "'a::{zero,linorder} codec \<Rightarrow> nat \<Rightarrow> istream \<Rightarrow> 'a LOD \<Rightarrow> error + ('a LOD \<times> istream)" where
  \<comment> \<open>\<open>float d; std::string m; is >> d >> m; node->lod.addLevel(d,m);\<close>, \<open>lodCount\<close> times\<close>
  "lod_loop codec 0 s l = Inr (l, s)"
| "lod_loop codec (Suc k) s l =
     (case extract_float codec s of (d, s1) \<Rightarrow>
      case extract_string s1 of (m, s2) \<Rightarrow>
        (case d of
           None \<Rightarrow> Inl Uninitialized_read
         | Some dv \<Rightarrow> lod_loop codec k s2 (addLevel dv (case m of None \<Rightarrow> [] | Some w \<Rightarrow> w) l)))"

definition read_count :: "istream \<Rightarrow> error + (int \<times> istream)" where
  \<comment> \<open>\<open>is >> tok; int count; is >> count;\<close> and the use of \<open>count\<close>\<close>
  "read_count s =
     (case extract_string s of (tok, s0) \<Rightarrow>
      case extract_int s0 of (count, s1) \<Rightarrow>
        (case count of Some n \<Rightarrow> Inr (n, s1) | None \<Rightarrow> Inl Uninitialized_read))"

definition read_box :: "'a::zero codec \<Rightarrow> istream \<Rightarrow> error + ('a BoundingBox \<times> istream)" where
  \<comment> \<open>\<open>is >> tok; is >> minx >> miny >> minz >> maxx >> maxy >> maxz;\<close>\<close>
  "read_box codec s =
     (case extract_string s of (tok, s0) \<Rightarrow>
      case extract_float codec s0 of (minx, s1) \<Rightarrow>
      case extract_float codec s1 of (miny, s2) \<Rightarrow>
      case extract_float codec s2 of (minz, s3) \<Rightarrow>
      case extract_float codec s3 of (maxx, s4) \<Rightarrow>
      case extract_float codec s4 of (maxy, s5) \<Rightarrow>
      case extract_float codec s5 of (maxz, s6) \<Rightarrow>
        (case (minx, miny, minz, maxx, maxy, maxz) of
           (Some a, Some b, Some c, Some d, Some e, Some f) \<Rightarrow>
             Inr (\<lparr>bb_min = Vec3 a b c, bb_max = Vec3 d e f\<rparr>, s6)
         | _ \<Rightarrow> Inl Uninitialized_read))"

definition read_fields ::
  "'a::{zero,linorder} codec \<Rightarrow> nat \<Rightarrow> 'a pstate \<Rightarrow> error + (int \<times> 'a pstate)" where
  \<comment> \<open>the part of \<open>deser\<close> from \<open>Position\<close> to the child count, on the node just made\<close>
  "read_fields codec node st =
     (case read_vec3 codec (input st) of Inl e \<Rightarrow> Inl e | Inr (pos, s1) \<Rightarrow>
      let h1 = set_node node (\<lambda>n. n\<lparr>transform := setPosition pos (transform n)\<rparr>) (store st) in
      case read_rotation codec s1 of Inl e \<Rightarrow> Inl e | Inr (rot, s2) \<Rightarrow>
      let h2 = set_node node (\<lambda>n. n\<lparr>transform := setRotation rot (transform n)\<rparr>) h1 in
      case read_vec3 codec s2 of Inl e \<Rightarrow> Inl e | Inr (scl, s3) \<Rightarrow>
      let h3 = set_node node (\<lambda>n. n\<lparr>transform := setScale scl (transform n)\<rparr>) h2 in
      case read_count s3 of Inl e \<Rightarrow> Inl e | Inr (lodCount, s4) \<Rightarrow>
      case lod_loop codec (nat lodCount) s4 (case h3 node of None \<Rightarrow> \<lparr>levels = []\<rparr> | Some n \<Rightarrow> lod n) of
        Inl e \<Rightarrow> Inl e | Inr (l, s5) \<Rightarrow>
      let h4 = set_node node (\<lambda>n. n\<lparr>lod := l\<rparr>) h3 in
      case read_box codec s5 of Inl e \<Rightarrow> Inl e | Inr (bb, s6) \<Rightarrow>
      let h5 = set_node node (\<lambda>n. n\<lparr>boundingBox := bb\<rparr>) h4 in
      case read_count s6 of Inl e \<Rightarrow> Inl e | Inr (childCount, s7) \<Rightarrow>
        Inr (childCount, st\<lparr>input := s7, store := h5\<rparr>))"

fun child_loop ::
  "('a pstate \<Rightarrow> (error + (nat option \<times> 'a pstate)) option) \<Rightarrow> nat \<Rightarrow> nat \<Rightarrow> 'a pstate
     \<Rightarrow> (error + 'a pstate) option" where
  \<comment> \<open>\<open>auto c = deser(is); if (c) node->addChild(c);\<close>, \<open>childCount\<close> times\<close>
  "child_loop f 0 node st = Some (Inr st)"
| "child_loop f (Suc k) node st =
     (case f st of
        None \<Rightarrow> None
      | Some (Inl e) \<Rightarrow> Some (Inl e)
      | Some (Inr (None, st1)) \<Rightarrow> child_loop f k node st1
      | Some (Inr (Some c, st1)) \<Rightarrow>
          (case addChild node c (store st1) of
             None \<Rightarrow> Some (Inl Dead_object)
           | Some h' \<Rightarrow> child_loop f k node (st1\<lparr>store := h'\<rparr>)))"

primrec deser :: "nat \<Rightarrow> 'a::{zero,one,uminus,linorder} codec \<Rightarrow> 'a pstate
    \<Rightarrow> (error + (nat option \<times> 'a pstate)) option" where
  \<comment> \<open>the recursive lambda of \<open>deserialize\<close>, with fuel for the depth of the recursion\<close>
  "deser 0 codec st = None"
| "deser (Suc fuel) codec st =
     (case extract_string (input st) of (tok, s0) \<Rightarrow>
        if tok \<noteq> Some ''Node'' then Some (Inr (None, st\<lparr>input := s0\<rparr>))
        else
          (case extract_string s0 of (nm, s1) \<Rightarrow>
           case make_shared (SceneNode_new (case nm of None \<Rightarrow> [] | Some w \<Rightarrow> w))
                  (st\<lparr>input := s1\<rparr>) of (node, st1) \<Rightarrow>
             (case read_fields codec node st1 of
                Inl e \<Rightarrow> Some (Inl e)
              | Inr (childCount, st2) \<Rightarrow>
                  (case child_loop (deser fuel codec) (nat childCount) node st2 of
                     None \<Rightarrow> None
                   | Some (Inl e) \<Rightarrow> Some (Inl e)
                   | Some (Inr st3) \<Rightarrow> Some (Inr (Some node, st3))))))"

definition deserialize :: "'a::{zero,one,uminus,linorder} codec \<Rightarrow> string option \<Rightarrow> 'a heap \<Rightarrow> nat
    \<Rightarrow> (error + (nat option \<times> 'a pstate)) option" where
  \<comment> \<open>\<open>ifs ? deser(ifs) : nullptr\<close>: the file is its content, or \<open>None\<close> when it cannot be
      opened; every call of \<open>deser\<close> that goes on reads a word, so one more than the length
      of the content bounds the depth\<close>
  "deserialize codec file h free =
     (case file of
        None \<Rightarrow> Some (Inr (None, \<lparr>input = istream_of [], store = h, next_free = free\<rparr>))
      | Some content \<Rightarrow>
          deser (Suc (length content)) codec
            \<lparr>input = istream_of content, store = h, next_free = free\<rparr>)"

section \<open>Scene trees\<close>

text \<open>
  What the serializer writes of a subtree: the name, the three transform fields, the
  bounding box and the LOD levels of each node, and the subtrees of its children in
  order. \<open>is_tree h a t\<close> reads the subtree of the store \<open>h\<close> at the address \<open>a\<close> as
  the tree \<open>t\<close>; two subtrees read as the same tree are isomorphic.
\<close>

datatype 'a tree =
  Tree (t_name: string) (t_position: "'a vec3") (t_rotation: "'a quat") (t_scale: "'a vec3")
       (t_box: "'a BoundingBox") (t_levels: "'a LODLevel list") (t_kids: "'a tree list")

inductive is_tree :: "'a heap \<Rightarrow> nat \<Rightarrow> 'a tree \<Rightarrow> bool" for h :: "'a heap" where
  node: "h a = Some n \<Longrightarrow> list_all2 (is_tree h) (children n) kids \<Longrightarrow>
         is_tree h a (Tree (name n) (position (transform n)) (rotation (transform n))
                        (scale (transform n)) (boundingBox n) (levels (lod n)) kids)"

fun nodes :: "'a tree \<Rightarrow> nat" where
  "nodes (Tree nm pos rot scl bb lvls kids) = Suc (sum_list (map nodes kids))"

definition word :: "string \<Rightarrow> bool" where
  \<comment> \<open>a string that \<open>is >> str\<close> reads back whole: not empty and without white space\<close>
  "word w \<longleftrightarrow> w \<noteq> [] \<and> list_all (\<lambda>c. \<not> isspace c) w"

definition reads_back :: "'a codec \<Rightarrow> 'a \<Rightarrow> bool" where
  \<comment> \<open>the text of the value is one word, and it is read as the same value\<close>
  "reads_back codec v \<longleftrightarrow>
     word (show_float codec v) \<and> read_float codec (show_float codec v) = Some v"

definition vec3_reads_back :: "'a codec \<Rightarrow> 'a vec3 \<Rightarrow> bool" where
  "vec3_reads_back codec v \<longleftrightarrow>
     reads_back codec (vx v) \<and> reads_back codec (vy v) \<and> reads_back codec (vz v)"

definition quat_reads_back :: "'a codec \<Rightarrow> 'a quat \<Rightarrow> bool" where
  "quat_reads_back codec q \<longleftrightarrow>
     reads_back codec (qx q) \<and> reads_back codec (qy q) \<and> reads_back codec (qz q)
     \<and> reads_back codec (qw q)"

fun tree_safe :: "'a::linorder codec \<Rightarrow> 'a tree \<Rightarrow> bool" where
  \<comment> \<open>names and mesh names are words, every number reads back, the thresholds ascend
      strictly, and the two counts fit an \<open>int\<close>\<close>
  "tree_safe codec (Tree nm pos rot scl bb lvls kids) \<longleftrightarrow>
     word nm \<and> vec3_reads_back codec pos \<and> quat_reads_back codec rot
     \<and> vec3_reads_back codec scl
     \<and> vec3_reads_back codec (bb_min bb) \<and> vec3_reads_back codec (bb_max bb)
     \<and> (\<forall>l\<in>set lvls. reads_back codec (distanceThreshold l) \<and> word (meshName l))
     \<and> sorted_wrt (<) (map distanceThreshold lvls)
     \<and> int (length lvls) \<le> INT_MAX \<and> int (length kids) \<le> INT_MAX
     \<and> (\<forall>k\<in>set kids. tree_safe codec k)"

section \<open>Notions for the proofs\<close>

definition sep :: "string \<Rightarrow> bool" where
  \<comment> \<open>the rest of the input ends the word before it: it is empty or starts with white space\<close>
  "sep t \<longleftrightarrow> (case t of [] \<Rightarrow> True | c # _ \<Rightarrow> isspace c)"

definition blank :: "string \<Rightarrow> bool" where
  \<comment> \<open>white space only\<close>
  "blank pre \<longleftrightarrow> (\<forall>c\<in>set pre. isspace c)"

text \<open>
  \<open>tree_within lo hi h a t\<close> is \<open>is_tree h a t\<close> with every node of the subtree at an address
  from \<open>lo\<close> up to, not including, \<open>hi\<close>.
\<close>

inductive tree_within :: "nat \<Rightarrow> nat \<Rightarrow> 'a heap \<Rightarrow> nat \<Rightarrow> 'a tree \<Rightarrow> bool"
  for lo :: nat and hi :: nat and h :: "'a heap" where
  node: "lo \<le> a \<Longrightarrow> a < hi \<Longrightarrow> h a = Some n \<Longrightarrow>
         list_all2 (tree_within lo hi h) (children n) kids \<Longrightarrow>
         tree_within lo hi h a (Tree (name n) (position (transform n)) (rotation (transform n))
                        (scale (transform n)) (boundingBox n) (levels (lod n)) kids)"

definition filled :: "'a SceneNode \<Rightarrow> 'a SceneNode \<Rightarrow> 'a SceneNode" where
  \<comment> \<open>the node \<open>m\<close> just made, after the field values written for \<open>n\<close> are read into it\<close>
  "filled m n =
     m\<lparr>transform := setScale (scale (transform n))
                      (setRotation (rotation (transform n))
                         (setPosition (position (transform n)) (transform m))),
       lod := \<lparr>levels = levels (lod n)\<rparr>, boundingBox := boundingBox n\<rparr>"

definition fields_safe :: "'a::linorder codec \<Rightarrow> 'a SceneNode \<Rightarrow> bool" where
  \<comment> \<open>\<open>tree_safe\<close> for the fields of one node\<close>
  "fields_safe codec n \<longleftrightarrow>
     vec3_reads_back codec (position (transform n)) \<and> quat_reads_back codec (rotation (transform n))
     \<and> vec3_reads_back codec (scale (transform n))
     \<and> vec3_reads_back codec (bb_min (boundingBox n)) \<and> vec3_reads_back codec (bb_max (boundingBox n))
     \<and> (\<forall>l\<in>set (levels (lod n)). reads_back codec (distanceThreshold l) \<and> word (meshName l))
     \<and> sorted_wrt (<) (map distanceThreshold (levels (lod n)))
     \<and> int (length (levels (lod n))) \<le> INT_MAX \<and> int (length (children n)) \<le> INT_MAX"







section \<open>Example scenes\<close>

definition lod2 :: "int LOD" where
  "lod2 = \<lparr>levels = [\<lparr>distanceThreshold = 10, meshName = ''high''\<rparr>,
                      \<lparr>distanceThreshold = 50, meshName = ''low''\<rparr>]\<rparr>"

text \<open>A constructed node after \<open>transform.setPosition(pos)\<close>, linked into a scene.\<close>

definition placed :: "string \<Rightarrow> 'a vec3 \<Rightarrow> nat option \<Rightarrow> nat list \<Rightarrow> 'a::{zero,one,uminus} SceneNode" where
  "placed nm pos par kids =
     (SceneNode_new nm)\<lparr>transform := setPosition pos Transform_new, parent := par, children := kids\<rparr>"

definition chain4 :: "int heap" where
  "chain4 = [0 \<mapsto> placed ''root'' (Vec3 1 0 0) None [1],
             1 \<mapsto> placed ''A'' (Vec3 0 2 0) (Some 0) [2],
             2 \<mapsto> placed ''B'' (Vec3 0 0 3) (Some 1) [3],
             3 \<mapsto> placed ''C'' (Vec3 4 0 0) (Some 2) []]"

definition family :: "int heap" where
  "family = [0 \<mapsto> (SceneNode_new ''p'')\<lparr>children := [1, 2, 1]\<rparr>,
             1 \<mapsto> (SceneNode_new ''a'')\<lparr>parent := Some 0\<rparr>,
             2 \<mapsto> (SceneNode_new ''b'')\<lparr>parent := Some 0\<rparr>]"

definition far_heap :: "real heap" where
  "far_heap = [0 \<mapsto> placed ''far'' (Vec3 100 0 0) None [1],
               1 \<mapsto> placed ''kid'' (Vec3 0 0 0) (Some 0) []]"

definition unit_box :: "int BoundingBox" where
  "unit_box = \<lparr>bb_min = Vec3 (- 1) (- 1) (- 1), bb_max = Vec3 1 1 1\<rparr>"

text \<open>A root with one child that has two LOD levels, and what the serializer writes of it.\<close>

definition scene2 :: "int heap" where
  "scene2 = [0 \<mapsto> placed ''root'' (Vec3 1 2 3) None [1],
             1 \<mapsto> (placed ''kid'' (Vec3 4 5 6) (Some 0) [])
                    \<lparr>lod := addLevel 50 ''low'' (addLevel 10 ''high'' \<lparr>levels = []\<rparr>)\<rparr>]"

definition scene2_tree :: "int tree" where
  "scene2_tree =
     Tree ''root'' (Vec3 1 2 3) (Quat 1 0 0 0) (Vec3 1 1 1) unit_box []
       [Tree ''kid'' (Vec3 4 5 6) (Quat 1 0 0 0) (Vec3 1 1 1) unit_box
          [\<lparr>distanceThreshold = 10, meshName = ''high''\<rparr>,
           \<lparr>distanceThreshold = 50, meshName = ''low''\<rparr>] []]"

text \<open>A single node whose name has a space in it.\<close>

definition spaced :: "int heap" where
  "spaced = [0 \<mapsto> SceneNode_new ''my node'']"




definition observe ::
  "(error + (nat option \<times> 'a pstate)) option
     \<Rightarrow> (error + (nat option \<times> string \<times> nat list \<times> bool)) option" where
  \<comment> \<open>of a result of \<open>deserialize\<close>: the root, its name, its children, and the fail bit of the stream\<close>
  "observe r =
     map_option (map_sum id
       (\<lambda>(a, st). (a, (case a of None \<Rightarrow> []
                              | Some x \<Rightarrow> (case store st x of None \<Rightarrow> [] | Some n \<Rightarrow> name n)),
                     (case a of None \<Rightarrow> [] | Some x \<Rightarrow> children_of (store st) x),
                     failbit (input st)))) r"

section \<open>Theorems\<close>

lemma getMatrix_valid:
  "cache_valid t \<Longrightarrow> fst (getMatrix t) = trs (position t) (rotation t) (scale t)"
  by (auto simp add: getMatrix_def cache_valid_def Let_def)

lemma call_valid: "cache_valid t \<Longrightarrow> cache_valid (call c t)"
  by (cases c)
     (auto simp add: cache_valid_def setPosition_def setRotation_def setScale_def
        getMatrix_def Let_def)

lemma calls_valid: "cache_valid t \<Longrightarrow> cache_valid (calls cs t)"
  by (induction cs arbitrary: t) (simp_all add: call_valid)

lemma calls_position: "position (calls cs t) = latest_position cs (position t)"
proof (induction cs arbitrary: t)
  case Nil
  show ?case by simp
next
  case (Cons c cs)
  show ?case
    by (cases c)
       (simp_all add: Cons.IH setPosition_def setRotation_def setScale_def getMatrix_def Let_def)
qed

lemma calls_rotation: "rotation (calls cs t) = latest_rotation cs (rotation t)"
proof (induction cs arbitrary: t)
  case Nil
  show ?case by simp
next
  case (Cons c cs)
  show ?case
    by (cases c)
       (simp_all add: Cons.IH setPosition_def setRotation_def setScale_def getMatrix_def Let_def)
qed

lemma calls_scale: "scale (calls cs t) = latest_scale cs (scale t)"
proof (induction cs arbitrary: t)
  case Nil
  show ?case by simp
next
  case (Cons c cs)
  show ?case
    by (cases c)
       (simp_all add: Cons.IH setPosition_def setRotation_def setScale_def getMatrix_def Let_def)
qed

lemma latest_position_filter:
  "latest_position (filter is_mutation cs) p = latest_position cs p"
proof (induction cs arbitrary: p)
  case Nil
  show ?case by simp
next
  case (Cons c cs)
  show ?case by (cases c) (simp_all add: Cons.IH)
qed

lemma latest_rotation_filter:
  "latest_rotation (filter is_mutation cs) q = latest_rotation cs q"
proof (induction cs arbitrary: q)
  case Nil
  show ?case by simp
next
  case (Cons c cs)
  show ?case by (cases c) (simp_all add: Cons.IH)
qed

lemma latest_scale_filter:
  "latest_scale (filter is_mutation cs) s = latest_scale cs s"
proof (induction cs arbitrary: s)
  case Nil
  show ?case by simp
next
  case (Cons c cs)
  show ?case by (cases c) (simp_all add: Cons.IH)
qed

lemma Transform_new_valid: "cache_valid Transform_new"
  by (simp add: cache_valid_def Transform_new_def)

text \<open>
  C1. On a \<open>Transform\<close> whose cache is valid (as it is after construction), after any
  sequence of \<open>setPosition\<close>, \<open>setRotation\<close>, \<open>setScale\<close> and \<open>getMatrix\<close> calls, the next
  \<open>getMatrix\<close> returns \<open>translate(position) * rotate(rotation) * scale(scale)\<close> of the
  most recently set component values, and the same matrix as after the sequence with
  every \<open>getMatrix\<close> call left out.
\<close>

theorem getMatrix_cache_correct:
  fixes t :: "'a::{zero,one,plus,minus,times} Transform"
  assumes "cache_valid t"
  shows "fst (getMatrix (calls cs t)) =
           trs (latest_position cs (position t)) (latest_rotation cs (rotation t))
               (latest_scale cs (scale t))
         \<and> fst (getMatrix (calls cs t)) = fst (getMatrix (calls (filter is_mutation cs) t))"
proof -
  have a: "fst (getMatrix (calls cs t)) =
             trs (latest_position cs (position t)) (latest_rotation cs (rotation t))
                 (latest_scale cs (scale t))" for cs
    using getMatrix_valid [OF calls_valid [OF assms, of cs]]
    by (simp add: calls_position calls_rotation calls_scale)
  show ?thesis
    using a [of cs] a [of "filter is_mutation cs"]
    by (simp add: latest_position_filter latest_rotation_filter latest_scale_filter)
qed

theorem getMatrix_cache_correct_witness:
  "cache_valid (Transform_new :: int Transform)
   \<and> fst (getMatrix (calls [SetPosition (Vec3 1 2 3), GetMatrix, GetMatrix, SetScale (Vec3 2 2 2),
                              GetMatrix, SetPosition (Vec3 5 0 0)] (Transform_new :: int Transform)))
     = trs (Vec3 5 0 0) quat_identity (Vec3 2 2 2)"
proof -
  have v: "cache_valid (Transform_new :: int Transform)"
    by (simp add: cache_valid_def Transform_new_def)
  have "latest_rotation [SetPosition (Vec3 1 2 3), GetMatrix, GetMatrix, SetScale (Vec3 2 2 2),
           GetMatrix, SetPosition (Vec3 5 0 0)] (rotation (Transform_new :: int Transform))
        = quat_identity"
    by (simp add: Transform_new_def)
  with v getMatrix_cache_correct [OF v,
      of "[SetPosition (Vec3 1 2 3), GetMatrix, GetMatrix, SetScale (Vec3 2 2 2),
           GetMatrix, SetPosition (Vec3 5 0 0)]"]
  show ?thesis by simp
qed

lemma std_find_le: "std_find xs v \<le> length xs"
  by (induction xs) auto

lemma std_find_take: "filter (\<lambda>x. x \<noteq> v) (take (std_find xs v) xs) = take (std_find xs v) xs"
  by (induction xs) auto

lemma std_find_hit: "std_find xs v < length xs \<Longrightarrow> xs ! std_find xs v = v"
  by (induction xs) (auto split: if_splits)

lemma std_find_absent: "v \<notin> set xs \<Longrightarrow> std_find xs v = length xs"
  by (induction xs) auto

lemma std_find_present: "v \<in> set xs \<Longrightarrow> std_find xs v < length xs"
  by (induction xs) auto

lemma remove_loop_take:
  fixes xs :: "'b list"
  shows "first \<le> i \<Longrightarrow> i < length xs \<Longrightarrow>
   (case remove_loop xs (\<lambda>_. v) first i of (ys, k) \<Rightarrow> take k ys)
     = take first xs @ filter (\<lambda>x. x \<noteq> v) (drop (Suc i) xs)"
proof (induction xs "(\<lambda>_. v) :: 'b list \<Rightarrow> 'b" first i rule: remove_loop.induct)
  case (1 xs first i)
  show ?case
  proof (cases "Suc i < length xs")
    case False
    with 1 show ?thesis by (subst remove_loop.simps) simp
  next
    case True
    note lt = True
    have d: "drop (Suc i) xs = xs ! Suc i # drop (Suc (Suc i)) xs"
      using lt by (simp add: Cons_nth_drop_Suc)
    show ?thesis
    proof (cases "xs ! Suc i = v")
      case True
      with 1 lt d show ?thesis by (subst remove_loop.simps) simp
    next
      case False
      have "(case remove_loop (xs[first := xs ! Suc i]) (\<lambda>_. v) (Suc first) (Suc i) of (ys, k) \<Rightarrow> take k ys)
            = take (Suc first) (xs[first := xs ! Suc i])
              @ filter (\<lambda>x. x \<noteq> v) (drop (Suc (Suc i)) (xs[first := xs ! Suc i]))"
        using 1(1) [OF lt False] 1(3,4) lt by simp
      moreover have "take (Suc first) (xs[first := xs ! Suc i]) = take first xs @ [xs ! Suc i]"
        using 1(3,4) lt by (simp add: take_Suc_conv_app_nth)
      moreover have "drop (Suc (Suc i)) (xs[first := xs ! Suc i]) = drop (Suc (Suc i)) xs"
        using 1(3) by simp
      ultimately show ?thesis
        using False lt d by (subst remove_loop.simps) simp
    qed
  qed
qed

lemma erase_remove_filter:
  "(case std_remove xs (\<lambda>_. v) of (ys, k) \<Rightarrow> erase_to_end ys k) = filter (\<lambda>x. x \<noteq> v) xs"
proof (cases "v \<in> set xs")
  case False
  then have "filter (\<lambda>x. x \<noteq> v) xs = xs"
    by (induction xs) auto
  with False show ?thesis
    by (simp add: std_remove_def std_find_absent erase_to_end_def)
next
  case True
  let ?f = "std_find xs v"
  have lt: "?f < length xs" using True by (rule std_find_present)
  have "xs = take ?f xs @ xs ! ?f # drop (Suc ?f) xs"
    using lt by (simp add: id_take_nth_drop [symmetric])
  then have "filter (\<lambda>x. x \<noteq> v) xs
      = filter (\<lambda>x. x \<noteq> v) (take ?f xs) @ filter (\<lambda>x. x \<noteq> v) (xs ! ?f # drop (Suc ?f) xs)"
    by (metis filter_append)
  then have "filter (\<lambda>x. x \<noteq> v) xs = take ?f xs @ filter (\<lambda>x. x \<noteq> v) (drop (Suc ?f) xs)"
    using std_find_hit [OF lt] by (simp add: std_find_take)
  with remove_loop_take [of ?f ?f xs v] lt show ?thesis
    by (simp add: std_remove_def erase_to_end_def Let_def)
qed

lemma first_beyond_None: "first_beyond d ls = None \<longleftrightarrow> (\<forall>l\<in>set ls. \<not> d < distanceThreshold l)"
  by (induction ls) auto

lemma first_beyond_Some:
  fixes d :: "'a::linorder"
  assumes "sorted (map distanceThreshold ls)" and "first_beyond d ls = Some lvl"
  shows "lvl \<in> set ls \<and> d < distanceThreshold lvl
         \<and> (\<forall>l\<in>set ls. d < distanceThreshold l \<longrightarrow> distanceThreshold lvl \<le> distanceThreshold l)"
  using assms
proof (induction ls)
  case Nil
  then show ?case by simp
next
  case (Cons a ls)
  show ?case
  proof (cases "d < distanceThreshold a")
    case True
    with Cons.prems show ?thesis by auto
  next
    case False
    with Cons.prems have "first_beyond d ls = Some lvl" and "sorted (map distanceThreshold ls)"
      by simp_all
    with Cons.IH False show ?thesis by auto
  qed
qed

lemma sorted_last_max:
  fixes ls :: "'a::linorder LODLevel list"
  assumes "sorted (map distanceThreshold ls)" and "l \<in> set ls"
  shows "distanceThreshold l \<le> distanceThreshold (last ls)"
  using assms
proof (induction ls)
  case Nil
  then show ?case by simp
next
  case (Cons a ls)
  then show ?case by (cases "ls = []") auto
qed

text \<open>
  C7. On a level list sorted ascending by threshold: \<open>getMesh\<close> returns the empty
  string when the list is empty; the mesh of the last level, whose threshold is the
  largest, when the distance is at or beyond every threshold; and otherwise the mesh of a
  level whose threshold is above the distance and is the smallest such threshold.
\<close>

theorem getMesh_selects:
  fixes l :: "'a::linorder LOD"
  assumes "sorted (map distanceThreshold (levels l))"
  shows "(levels l = [] \<longrightarrow> getMesh l d = [])
    \<and> (levels l \<noteq> [] \<and> (\<forall>lvl\<in>set (levels l). distanceThreshold lvl \<le> d) \<longrightarrow>
         getMesh l d = meshName (last (levels l))
         \<and> (\<forall>lvl\<in>set (levels l). distanceThreshold lvl \<le> distanceThreshold (last (levels l))))
    \<and> ((\<exists>lvl\<in>set (levels l). d < distanceThreshold lvl) \<longrightarrow>
         (\<exists>lvl\<in>set (levels l). getMesh l d = meshName lvl \<and> d < distanceThreshold lvl
            \<and> (\<forall>l'\<in>set (levels l). d < distanceThreshold l' \<longrightarrow>
                   distanceThreshold lvl \<le> distanceThreshold l')))"
proof (intro conjI impI)
  assume "levels l = []"
  then show "getMesh l d = []" by (simp add: getMesh_def)
next
  assume a: "levels l \<noteq> [] \<and> (\<forall>lvl\<in>set (levels l). distanceThreshold lvl \<le> d)"
  then have "first_beyond d (levels l) = None"
    by (auto simp: first_beyond_None)
  with a show "getMesh l d = meshName (last (levels l))"
    by (simp add: getMesh_def)
next
  assume "levels l \<noteq> [] \<and> (\<forall>lvl\<in>set (levels l). distanceThreshold lvl \<le> d)"
  show "\<forall>lvl\<in>set (levels l). distanceThreshold lvl \<le> distanceThreshold (last (levels l))"
    using sorted_last_max [OF assms] by blast
next
  assume "\<exists>lvl\<in>set (levels l). d < distanceThreshold lvl"
  then obtain lvl where s: "first_beyond d (levels l) = Some lvl"
    using first_beyond_None [of d "levels l"] by (cases "first_beyond d (levels l)") auto
  from first_beyond_Some [OF assms s] s
  show "\<exists>lvl\<in>set (levels l). getMesh l d = meshName lvl \<and> d < distanceThreshold lvl
            \<and> (\<forall>l'\<in>set (levels l). d < distanceThreshold l' \<longrightarrow>
                   distanceThreshold lvl \<le> distanceThreshold l')"
    by (auto simp: getMesh_def)
qed

theorem getMesh_selects_witness:
  "sorted (map distanceThreshold (levels lod2))
   \<and> getMesh lod2 20 = ''low'' \<and> getMesh lod2 50 = ''low'' \<and> getMesh lod2 5 = ''high''
   \<and> getMesh \<lparr>levels = ([] :: int LODLevel list)\<rparr> 5 = []"
  using getMesh_selects [of lod2 20]
  by (simp add: lod2_def getMesh_def)

lemma read_ref_Held: "read_ref (Held c) = (\<lambda>_. c)"
  by (rule ext) simp

lemma removeChild_Some:
  "h this = Some n \<Longrightarrow>
   removeChild this (Held child) h
     = Some (h(this \<mapsto> n\<lparr>children := filter (\<lambda>c. c \<noteq> child) (children n)\<rparr>))"
  by (simp add: removeChild_def read_ref_Held erase_remove_filter)


lemma family_0: "family 0 = Some ((SceneNode_new ''p'')\<lparr>children := [1, 2, 1]\<rparr>)"
  by (simp add: family_def)

lemma removeChild_family:
  "removeChild 0 (Held 1) family = Some (family(0 \<mapsto> (SceneNode_new ''p'')\<lparr>children := [2]\<rparr>))"
  using removeChild_Some [where h = family and this = 0 and child = 1
      and n = "(SceneNode_new ''p'')\<lparr>children := [1, 2, 1]\<rparr>"] family_0
  by simp

text \<open>
  The call \<open>p.removeChild(p.children[0])\<close> on the children \<open>[1, 2, 1]\<close>: the first move
  overwrites the referenced element with \<open>2\<close>, the last entry \<open>1\<close> then differs from it and
  is kept, and \<open>[2, 1]\<close> is left.
\<close>

lemma removeChild_aliased:
  "map_option (\<lambda>h'. children_of h' 0) (removeChild 0 (Slot 0) family) = Some [2, 1]"
  by code_simp

text \<open>
  C8 as stated fails: \<open>removeChild\<close> does not stop at the first entry. On a node whose
  children are \<open>[1, 2, 1]\<close>, removing \<open>1\<close>, held in a variable of the caller, leaves
  \<open>[2]\<close>, where removing the first entry only would leave \<open>[2, 1]\<close>.
\<close>

theorem removeChild_first_only_counterexample:
  "map_option (\<lambda>h'. children_of h' 0) (removeChild 0 (Held 1) family) = Some [2]
   \<and> remove1 1 (children_of family 0) = [2, 1]"
  by (simp add: removeChild_family children_of_def family_0 del: One_nat_def)

text \<open>
  C8, amended. When the argument \<open>child\<close> is not a reference to an element of this node's
  own children sequence, \<open>removeChild(child)\<close> removes every entry of the children
  sequence that is the pointer \<open>child\<close> and keeps the other entries in their order; when
  no entry is \<open>child\<close>, the children sequence and the whole store are unchanged.
\<close>

theorem removeChild_removes_all:
  assumes "h this = Some n"
  shows "\<exists>h'. removeChild this (Held child) h = Some h'
           \<and> children_of h' this = filter (\<lambda>c. c \<noteq> child) (children n)
           \<and> child \<notin> set (children_of h' this)
           \<and> (child \<notin> set (children n) \<longrightarrow> children_of h' this = children n \<and> h' = h)"
proof -
  let ?h' = "h(this \<mapsto> n\<lparr>children := filter (\<lambda>c. c \<noteq> child) (children n)\<rparr>)"
  have r: "removeChild this (Held child) h = Some ?h'"
    using assms by (rule removeChild_Some)
  have c: "children_of ?h' this = filter (\<lambda>c. c \<noteq> child) (children n)"
    by (simp add: children_of_def)
  have "filter (\<lambda>c. c \<noteq> child) (children n) = children n" if "child \<notin> set (children n)"
    using that by (induction "children n") (auto intro: filter_True)
  then have "?h' = h \<and> children_of ?h' this = children n" if "child \<notin> set (children n)"
    using that assms c by (auto simp: fun_upd_idem)
  with r c show ?thesis by auto
qed

theorem removeChild_removes_all_witness:
  "family 0 = Some ((SceneNode_new ''p'')\<lparr>children := [1, 2, 1]\<rparr>)
   \<and> (\<exists>h'. removeChild 0 (Held 1) family = Some h' \<and> children_of h' 0 = [2])"
  using removeChild_removes_all [where h = family and this = 0 and child = 1
      and n = "(SceneNode_new ''p'')\<lparr>children := [1, 2, 1]\<rparr>"] family_0
  by auto



text \<open>
  C10. A node made by \<open>SceneNode(n)\<close> has the name \<open>n\<close>, is visible, has no children, no
  parent and no LOD level, position zero, the identity rotation, scale one, and the
  bounding box from \<open>(-1,-1,-1)\<close> to \<open>(1,1,1)\<close>; in exact arithmetic its local matrix is
  the identity, and it is the identity as well when the default quaternion is all zeros.
\<close>

theorem SceneNode_new_fields:
  "name (SceneNode_new n :: 'a::{zero,one,uminus} SceneNode) = n
   \<and> visible (SceneNode_new n :: 'a SceneNode)
   \<and> children (SceneNode_new n :: 'a SceneNode) = []
   \<and> parent (SceneNode_new n :: 'a SceneNode) = None
   \<and> levels (lod (SceneNode_new n :: 'a SceneNode)) = []
   \<and> position (transform (SceneNode_new n :: 'a SceneNode)) = Vec3 0 0 0
   \<and> rotation (transform (SceneNode_new n :: 'a SceneNode)) = Quat 1 0 0 0
   \<and> scale (transform (SceneNode_new n :: 'a SceneNode)) = Vec3 1 1 1
   \<and> bb_min (boundingBox (SceneNode_new n :: 'a SceneNode)) = Vec3 (- 1) (- 1) (- 1)
   \<and> bb_max (boundingBox (SceneNode_new n :: 'a SceneNode)) = Vec3 1 1 1
   \<and> local_matrix (SceneNode_new n :: real SceneNode) = mat4_diag 1
   \<and> fst (getMatrix ((Transform_new :: real Transform)\<lparr>rotation := Quat 0 0 0 0\<rparr>)) = mat4_diag 1"
  by (simp add: SceneNode_new_def Transform_new_def vec3_splat_def quat_identity_def
        local_matrix_def getMatrix_def trs_def translate_def mat4_cast_def scale_mat_def
        mat4_mul_def mat4_mul_col_def mat4_diag_def vec4_add_def vec4_scale_def Let_def)

lemma getWorldMatrix_root:
  assumes "h r = Some n" and "lock h (parent n) = None"
  shows "getWorldMatrix r h = Some (local_matrix n, h(r \<mapsto> refreshed n))"
  using assms
  by (subst getWorldMatrix.simps)
     (simp add: local_matrix_def refreshed_def split: prod.splits)

lemma getWorldMatrix_child:
  assumes "h c = Some n" and "parent n = Some p" and "h p = Some np"
    and "getWorldMatrix p h = Some (pm, h1)" and "h1 c = Some n1"
  shows "getWorldMatrix c h = Some (mat4_mul pm (local_matrix n1), h1(c \<mapsto> refreshed n1))"
  using assms
  by (subst getWorldMatrix.simps)
     (simp add: lock_def local_matrix_def refreshed_def split: prod.splits)

text \<open>
  C2. In a chain \<open>root \<rightarrow> A \<rightarrow> B \<rightarrow> C\<close> of live nodes, each the parent of the next and the
  root without a live parent, \<open>C.getWorldMatrix()\<close> returns
  \<open>root.local * A.local * B.local * C.local\<close>, associated to the left as C++ reads the
  product, and refreshes the four caches; the root returns its own local matrix.
\<close>

theorem getWorldMatrix_chain:
  fixes h :: "'a::{zero,one,plus,minus,times} heap"
  assumes "h r = Some nr" and "lock h (parent nr) = None"
    and "h a = Some na" and "parent na = Some r"
    and "h b = Some nb" and "parent nb = Some a"
    and "h c = Some nc" and "parent nc = Some b"
  shows "getWorldMatrix c h =
           Some (mat4_mul (mat4_mul (mat4_mul (local_matrix nr) (local_matrix na)) (local_matrix nb))
                          (local_matrix nc),
                 h(r \<mapsto> refreshed nr, a \<mapsto> refreshed na, b \<mapsto> refreshed nb, c \<mapsto> refreshed nc))
       \<and> getWorldMatrix r h = Some (local_matrix nr, h(r \<mapsto> refreshed nr))"
proof -
  have ra: "r \<noteq> a" using assms by (auto simp: lock_def)
  have rb: "r \<noteq> b" using assms by (auto simp: lock_def)
  have rc: "r \<noteq> c" using assms by (auto simp: lock_def)
  have ab: "a \<noteq> b" using assms ra by auto
  have ac: "a \<noteq> c" using assms rb by auto
  have bc: "b \<noteq> c" using assms ab by auto
  let ?h1 = "h(r \<mapsto> refreshed nr)"
  have 1: "getWorldMatrix r h = Some (local_matrix nr, ?h1)"
    using assms(1,2) by (rule getWorldMatrix_root)
  let ?h2 = "?h1(a \<mapsto> refreshed na)"
  have 2: "getWorldMatrix a h = Some (mat4_mul (local_matrix nr) (local_matrix na), ?h2)"
    using getWorldMatrix_child [where h = h and c = a and n = na and p = r and np = nr
        and pm = "local_matrix nr" and ?h1.0 = ?h1 and ?n1.0 = na] assms 1 ra
    by simp
  let ?h3 = "?h2(b \<mapsto> refreshed nb)"
  have 3: "getWorldMatrix b h
      = Some (mat4_mul (mat4_mul (local_matrix nr) (local_matrix na)) (local_matrix nb), ?h3)"
    using getWorldMatrix_child [where h = h and c = b and n = nb and p = a and np = na
        and pm = "mat4_mul (local_matrix nr) (local_matrix na)" and ?h1.0 = ?h2 and ?n1.0 = nb]
      assms 2 rb ab
    by simp
  let ?h4 = "?h3(c \<mapsto> refreshed nc)"
  have 4: "getWorldMatrix c h
      = Some (mat4_mul (mat4_mul (mat4_mul (local_matrix nr) (local_matrix na)) (local_matrix nb))
                (local_matrix nc), ?h4)"
    using getWorldMatrix_child [where h = h and c = c and n = nc and p = b and np = nb
        and pm = "mat4_mul (mat4_mul (local_matrix nr) (local_matrix na)) (local_matrix nb)"
        and ?h1.0 = ?h3 and ?n1.0 = nc]
      assms 3 rc ac bc
    by simp
  from 1 4 show ?thesis by simp
qed

lemma count_outside_filter:
  "count_outside plane wm pts out
     = out + int (length (filter (\<lambda>p. signed_distance plane wm p < 0) pts))"
  by (induction pts arbitrary: out) simp_all

lemma filter_all_length: "length (filter P xs) = length xs \<longleftrightarrow> (\<forall>x\<in>set xs. P x)"
proof (induction xs)
  case Nil
  show ?case by simp
next
  case (Cons x xs)
  have "length (filter P xs) \<le> length xs" by (rule length_filter_le)
  then have "length (filter P xs) \<noteq> Suc (length xs)" by arith
  with Cons show ?case by simp
qed

lemma count_outside_all:
  "length pts = 8 \<Longrightarrow>
   count_outside plane wm pts 0 = 8 \<longleftrightarrow> (\<forall>p\<in>set pts. signed_distance plane wm p < 0)"
  using filter_all_length [of "\<lambda>p. signed_distance plane wm p < 0" pts]
  by (simp add: count_outside_filter)

lemma length_corners: "length (corners bb) = 8"
  by (simp add: corners_def)

lemma test_planes_iff:
  "test_planes pls wm (corners bb)
     \<longleftrightarrow> \<not> (\<exists>plane\<in>set pls. \<forall>p\<in>set (corners bb). signed_distance plane wm p < 0)"
  by (induction pls) (simp_all add: count_outside_all [OF length_corners])

lemma local_matrix_new: "local_matrix (SceneNode_new nm :: real SceneNode) = mat4_diag 1"
  by (simp add: SceneNode_new_def Transform_new_def vec3_splat_def quat_identity_def
        local_matrix_def getMatrix_def trs_def translate_def mat4_cast_def scale_mat_def
        mat4_mul_def mat4_mul_col_def mat4_diag_def vec4_add_def vec4_scale_def Let_def)

lemma identity_planes:
  "extractPlanes sqrt (mat4_diag (1::real))
     = [Vec4 1 0 0 1, Vec4 (- 1) 0 0 1, Vec4 0 1 0 1, Vec4 0 (- 1) 0 1, Vec4 0 0 1 1, Vec4 0 0 (- 1) 1]"
  by (simp add: extractPlanes_def normalize_plane_def length3_def dot3_def vec3_of_def
        vec4_div_def vec4_add_def vec4_sub_def row_def mat4_diag_def Let_def)

lemma identity_test:
  "test_planes (extractPlanes sqrt (mat4_diag (1::real))) (mat4_diag 1)
     (corners \<lparr>bb_min = Vec3 (- 1) (- 1) (- 1), bb_max = Vec3 1 1 1\<rparr>)"
  unfolding identity_planes
  by (simp add: corners_def signed_distance_def mat4_mul_vec4_def dot3_def
        vec3_of_def vec4_of_def vec4_add_def vec4_scale_def mat4_diag_def Let_def)

lemma isVisible_origin:
  "isVisible (FrustumCuller_new sqrt (mat4_diag (1::real))) 0 [0 \<mapsto> SceneNode_new nm]
     = Some (True, [0 \<mapsto> (refreshed (SceneNode_new nm))\<lparr>visible := True\<rparr>])"
proof -
  let ?h = "[0 \<mapsto> SceneNode_new nm] :: real heap"
  have "getWorldMatrix 0 ?h = Some (local_matrix (SceneNode_new nm :: real SceneNode),
          ?h(0 \<mapsto> refreshed (SceneNode_new nm)))"
    by (rule getWorldMatrix_root) (simp_all add: lock_def SceneNode_new_def)
  then have g: "getWorldMatrix 0 ?h = Some (mat4_diag 1, [0 \<mapsto> refreshed (SceneNode_new nm)])"
    by (simp add: local_matrix_new)
  have b: "boundingBox (refreshed (SceneNode_new nm :: real SceneNode))
      = \<lparr>bb_min = Vec3 (- 1) (- 1) (- 1), bb_max = Vec3 1 1 1\<rparr>"
    by (simp add: refreshed_def SceneNode_new_def)
  show ?thesis
    by (simp add: isVisible_def g b FrustumCuller_new_def identity_test)
qed

lemma isVisible_result:
  fixes h :: "'a::{zero,one,plus,minus,times,ord} heap"
  assumes "getWorldMatrix node h = Some (wm, h1)" and "h1 node = Some n"
  shows "if \<exists>plane\<in>set (planes culler).
             \<forall>p\<in>set (corners (boundingBox n)). signed_distance plane wm p < 0
         then isVisible culler node h = Some (False, h1(node \<mapsto> n\<lparr>visible := False\<rparr>))
         else isVisible culler node h = Some (True, h1(node \<mapsto> n\<lparr>visible := True\<rparr>))"
proof -
  let ?b = "test_planes (planes culler) wm (corners (boundingBox n))"
  let ?out = "\<exists>plane\<in>set (planes culler).
                \<forall>p\<in>set (corners (boundingBox n)). signed_distance plane wm p < 0"
  have iv: "isVisible culler node h = Some (?b, h1(node \<mapsto> n\<lparr>visible := ?b\<rparr>))"
    using assms by (simp add: isVisible_def Let_def)
  have out: "?out \<longleftrightarrow> \<not> ?b"
    by (simp only: test_planes_iff not_not)
  show ?thesis
  proof (cases ?b)
    case True
    with iv have "isVisible culler node h = Some (True, h1(node \<mapsto> n\<lparr>visible := True\<rparr>))"
      by simp
    moreover from True out have "\<not> ?out" by blast
    ultimately show ?thesis
      by (simp only: if_False simp_thms)
  next
    case False
    with iv have "isVisible culler node h = Some (False, h1(node \<mapsto> n\<lparr>visible := False\<rparr>))"
      by simp
    moreover from False out have ?out by blast
    ultimately show ?thesis
      by (simp only: if_True simp_thms)
  qed
qed

lemma getMatrix_again: "getMatrix (snd (getMatrix t)) = (fst (getMatrix t), snd (getMatrix t))"
  by (simp add: getMatrix_def Let_def)

lemma local_matrix_refreshed: "local_matrix (refreshed n) = local_matrix n"
  by (simp add: local_matrix_def refreshed_def getMatrix_again)

lemma refreshed_refreshed: "refreshed (refreshed n) = refreshed n"
  by (simp add: refreshed_def getMatrix_again)

lemma boundingBox_refreshed: "boundingBox (refreshed n) = boundingBox n"
  by (simp add: refreshed_def)

lemma lock_Some: "lock h w = Some p \<Longrightarrow> w = Some p \<and> (\<exists>np. h p = Some np)"
  by (auto simp: lock_def split: option.splits)

lemma chain_ends_world: "chain_ends h a \<Longrightarrow> \<exists>wm. world_matrix h a wm"
proof (induction rule: chain_ends.induct)
  case (root a n)
  then show ?case by (blast intro: world_matrix.root)
next
  case (step a n p)
  then show ?case by (blast intro: world_matrix.step)
qed

lemma getWorldMatrix_returns:
  assumes "world_matrix h a wm" and "h a = Some n"
  shows "\<exists>h1. getWorldMatrix a h = Some (wm, h1) \<and> h1 a = Some (refreshed n)
           \<and> (\<forall>x. h1 x = h x \<or> (\<exists>m. h x = Some m \<and> h1 x = Some (refreshed m)))"
  using assms
proof (induction arbitrary: n rule: world_matrix.induct)
  case (root a n')
  then have n: "n' = n" by simp
  have "getWorldMatrix a h = Some (local_matrix n', h(a \<mapsto> refreshed n'))"
    using root.hyps by (rule getWorldMatrix_root)
  with n root.prems show ?case by auto
next
  case (step a n' p pm)
  then have n: "n' = n" by simp
  from lock_Some [OF step.hyps(2)] obtain np where p: "parent n' = Some p" "h p = Some np"
    by blast
  from step.IH [OF p(2)] obtain h1 where
    g: "getWorldMatrix p h = Some (pm, h1)"
    and fr: "\<forall>x. h1 x = h x \<or> (\<exists>m. h x = Some m \<and> h1 x = Some (refreshed m))"
    by blast
  from fr step.hyps(1) obtain n1 where n1: "h1 a = Some n1" "n1 = n' \<or> n1 = refreshed n'"
    by (metis option.inject)
  then have lm: "local_matrix n1 = local_matrix n'" and rf: "refreshed n1 = refreshed n'"
    by (auto simp: local_matrix_refreshed refreshed_refreshed)
  have "getWorldMatrix a h = Some (mat4_mul pm (local_matrix n1), h1(a \<mapsto> refreshed n1))"
    using step.hyps(1) p g n1(1) by (rule getWorldMatrix_child)
  then have r: "getWorldMatrix a h = Some (mat4_mul pm (local_matrix n'), h1(a \<mapsto> refreshed n'))"
    by (simp only: lm rf)
  have "\<forall>x. (h1(a \<mapsto> refreshed n')) x = h x
          \<or> (\<exists>m. h x = Some m \<and> (h1(a \<mapsto> refreshed n')) x = Some (refreshed m))"
    using fr step.hyps(1) by auto
  with r n show ?case by auto
qed

text \<open>
  C3. For every culler and every node whose chain of live parents ends, \<open>isVisible\<close>
  returns. The matrix it gets from \<open>getWorldMatrix\<close> is the world matrix of the node, and
  on the way the caches of the node and of its ancestors are refreshed and nothing else
  changes. If for one of the culler's planes all eight corners of the bounding box,
  transformed by the world matrix, have a signed distance below zero, \<open>isVisible\<close> returns
  false and sets the node's \<open>visible\<close> to false, and otherwise it returns true and sets
  \<open>visible\<close> to true. A freshly constructed node (at the origin, with the default box) is
  visible to the culler of the identity matrix.
\<close>

theorem isVisible_spec:
  fixes h :: "'a::{zero,one,plus,minus,times,ord} heap"
  assumes "chain_ends h node" and "h node = Some n"
  shows "(\<exists>wm h1. world_matrix h node wm \<and> getWorldMatrix node h = Some (wm, h1)
            \<and> (\<forall>x. h1 x = h x \<or> (\<exists>m. h x = Some m \<and> h1 x = Some (refreshed m)))
            \<and> (if \<exists>plane\<in>set (planes culler).
                     \<forall>p\<in>set (corners (boundingBox n)). signed_distance plane wm p < 0
                then isVisible culler node h
                       = Some (False, h1(node \<mapsto> (refreshed n)\<lparr>visible := False\<rparr>))
                else isVisible culler node h
                       = Some (True, h1(node \<mapsto> (refreshed n)\<lparr>visible := True\<rparr>))))
       \<and> isVisible (FrustumCuller_new sqrt (mat4_diag (1::real))) 0 [0 \<mapsto> SceneNode_new nm]
           = Some (True, [0 \<mapsto> (refreshed (SceneNode_new nm))\<lparr>visible := True\<rparr>])"
proof -
  from chain_ends_world [OF assms(1)] obtain wm where w: "world_matrix h node wm" by blast
  from getWorldMatrix_returns [OF w assms(2)] obtain h1 where
    g: "getWorldMatrix node h = Some (wm, h1)" and n1: "h1 node = Some (refreshed n)"
    and fr: "\<forall>x. h1 x = h x \<or> (\<exists>m. h x = Some m \<and> h1 x = Some (refreshed m))"
    by blast
  from isVisible_result [OF g n1, of culler]
  have "if \<exists>plane\<in>set (planes culler).
             \<forall>p\<in>set (corners (boundingBox n)). signed_distance plane wm p < 0
        then isVisible culler node h = Some (False, h1(node \<mapsto> (refreshed n)\<lparr>visible := False\<rparr>))
        else isVisible culler node h = Some (True, h1(node \<mapsto> (refreshed n)\<lparr>visible := True\<rparr>))"
    by (simp only: boundingBox_refreshed)
  with w g fr show ?thesis
    using isVisible_origin [of nm] by blast
qed

lemma local_matrix_placed:
  "local_matrix (placed nm (Vec3 a b c) par kids :: 'a::comm_ring_1 SceneNode)
     = Mat4 (Vec4 1 0 0 0) (Vec4 0 1 0 0) (Vec4 0 0 1 0) (Vec4 a b c 1)"
  by (simp add: placed_def SceneNode_new_def Transform_new_def setPosition_def vec3_splat_def
        quat_identity_def local_matrix_def getMatrix_def trs_def translate_def mat4_cast_def
        scale_mat_def mat4_mul_def mat4_mul_col_def mat4_diag_def vec4_add_def vec4_scale_def Let_def)

theorem getWorldMatrix_chain_witness:
  "chain4 0 = Some (placed ''root'' (Vec3 1 0 0) None [1])
   \<and> lock chain4 (parent (placed ''root'' (Vec3 1 0 0) None [1] :: int SceneNode)) = None
   \<and> chain4 1 = Some (placed ''A'' (Vec3 0 2 0) (Some 0) [2])
   \<and> chain4 2 = Some (placed ''B'' (Vec3 0 0 3) (Some 1) [3])
   \<and> chain4 3 = Some (placed ''C'' (Vec3 4 0 0) (Some 2) [])
   \<and> map_option fst (getWorldMatrix 3 chain4)
       = Some (Mat4 (Vec4 1 0 0 0) (Vec4 0 1 0 0) (Vec4 0 0 1 0) (Vec4 5 2 3 1))"
proof -
  have n0: "chain4 0 = Some (placed ''root'' (Vec3 1 0 0) None [1])"
    and n1: "chain4 1 = Some (placed ''A'' (Vec3 0 2 0) (Some 0) [2])"
    and n2: "chain4 2 = Some (placed ''B'' (Vec3 0 0 3) (Some 1) [3])"
    and n3: "chain4 3 = Some (placed ''C'' (Vec3 4 0 0) (Some 2) [])"
    by (simp_all add: chain4_def)
  have l: "lock chain4 (parent (placed ''root'' (Vec3 1 0 0) None [1] :: int SceneNode)) = None"
    by (simp add: lock_def placed_def)
  have p: "parent (placed ''A'' (Vec3 0 2 0) (Some 0) [2] :: int SceneNode) = Some 0"
    "parent (placed ''B'' (Vec3 0 0 3) (Some 1) [3] :: int SceneNode) = Some 1"
    "parent (placed ''C'' (Vec3 4 0 0) (Some 2) [] :: int SceneNode) = Some 2"
    by (simp_all add: placed_def)
  have m: "mat4_mul (mat4_mul (mat4_mul
             (Mat4 (Vec4 1 0 0 0) (Vec4 0 1 0 0) (Vec4 0 0 1 0) (Vec4 1 0 0 (1::int)))
             (Mat4 (Vec4 1 0 0 0) (Vec4 0 1 0 0) (Vec4 0 0 1 0) (Vec4 0 2 0 1)))
             (Mat4 (Vec4 1 0 0 0) (Vec4 0 1 0 0) (Vec4 0 0 1 0) (Vec4 0 0 3 1)))
             (Mat4 (Vec4 1 0 0 0) (Vec4 0 1 0 0) (Vec4 0 0 1 0) (Vec4 4 0 0 1))
           = Mat4 (Vec4 1 0 0 0) (Vec4 0 1 0 0) (Vec4 0 0 1 0) (Vec4 5 2 3 1)"
    by (simp add: mat4_mul_def mat4_mul_col_def vec4_add_def vec4_scale_def)
  from getWorldMatrix_chain [OF n0 l n1 p(1) n2 p(2) n3 p(3)] n0 n1 n2 n3 l
  show ?thesis
    by (simp only: local_matrix_placed m simp_thms option.map fst_conv)
qed

lemma far_heap_world:
  "getWorldMatrix 1 far_heap
     = Some (Mat4 (Vec4 1 0 0 0) (Vec4 0 1 0 0) (Vec4 0 0 1 0) (Vec4 100 0 0 1),
             far_heap(0 \<mapsto> refreshed (placed ''far'' (Vec3 100 0 0) None [1]),
                      1 \<mapsto> refreshed (placed ''kid'' (Vec3 0 0 0) (Some 0) [])))"
proof -
  let ?r = "placed ''far'' (Vec3 100 0 0) None [1] :: real SceneNode"
  let ?k = "placed ''kid'' (Vec3 0 0 0) (Some 0) [] :: real SceneNode"
  have r: "far_heap 0 = Some ?r" and k: "far_heap 1 = Some ?k"
    by (simp_all add: far_heap_def)
  have g0: "getWorldMatrix 0 far_heap = Some (local_matrix ?r, far_heap(0 \<mapsto> refreshed ?r))"
    using r by (rule getWorldMatrix_root) (simp add: lock_def placed_def)
  have pk: "parent ?k = Some 0"
    by (simp add: placed_def)
  have k1: "(far_heap(0 \<mapsto> refreshed ?r)) 1 = Some ?k"
    using k by (simp del: One_nat_def)
  have "getWorldMatrix 1 far_heap
      = Some (mat4_mul (local_matrix ?r) (local_matrix ?k),
              (far_heap(0 \<mapsto> refreshed ?r))(1 \<mapsto> refreshed ?k))"
    using k pk r g0 k1 by (rule getWorldMatrix_child)
  then show ?thesis
    by (simp add: local_matrix_placed mat4_mul_def mat4_mul_col_def vec4_add_def vec4_scale_def)
qed

theorem isVisible_spec_witness:
  "chain_ends far_heap 1
   \<and> far_heap 1 = Some (placed ''kid'' (Vec3 0 0 0) (Some 0) [])
   \<and> map_option fst (isVisible (FrustumCuller_new sqrt (mat4_diag 1)) 1 far_heap) = Some False"
proof -
  let ?r = "placed ''far'' (Vec3 100 0 0) None [1] :: real SceneNode"
  let ?k = "placed ''kid'' (Vec3 0 0 0) (Some 0) [] :: real SceneNode"
  let ?wm = "Mat4 (Vec4 1 0 0 0) (Vec4 0 1 0 0) (Vec4 0 0 1 0) (Vec4 100 0 0 (1::real))"
  let ?c = "FrustumCuller_new sqrt (mat4_diag (1::real))"
  have r: "far_heap 0 = Some ?r" and k: "far_heap 1 = Some ?k"
    by (simp_all add: far_heap_def)
  have r0: "chain_ends far_heap 0"
    using r by (rule chain_ends.root) (simp add: lock_def placed_def)
  have lk: "lock far_heap (parent ?k) = Some 0"
    by (simp add: lock_def placed_def r)
  from k lk r0 have c: "chain_ends far_heap 1"
    by (rule chain_ends.step)
  have b: "corners (boundingBox ?k)
      = [Vec3 (- 1) (- 1) (- 1), Vec3 1 (- 1) (- 1), Vec3 (- 1) 1 (- 1), Vec3 1 1 (- 1),
         Vec3 (- 1) (- 1) 1, Vec3 1 (- 1) 1, Vec3 (- 1) 1 1, Vec3 1 1 1]"
    by (simp add: placed_def SceneNode_new_def corners_def)
  have out: "\<exists>plane\<in>set (planes ?c). \<forall>p\<in>set (corners (boundingBox ?k)). signed_distance plane ?wm p < 0"
    unfolding b FrustumCuller_new_def
    by (simp add: identity_planes signed_distance_def mat4_mul_vec4_def dot3_def
          vec3_of_def vec4_of_def vec4_add_def vec4_scale_def Let_def)
  from isVisible_spec [OF c k, of ?c] obtain wm h1 where
    g: "getWorldMatrix 1 far_heap = Some (wm, h1)"
    and iv: "if \<exists>plane\<in>set (planes ?c). \<forall>p\<in>set (corners (boundingBox ?k)). signed_distance plane wm p < 0
             then isVisible ?c 1 far_heap = Some (False, h1(1 \<mapsto> (refreshed ?k)\<lparr>visible := False\<rparr>))
             else isVisible ?c 1 far_heap = Some (True, h1(1 \<mapsto> (refreshed ?k)\<lparr>visible := True\<rparr>))"
    by blast
  from g far_heap_world have "wm = ?wm" by simp
  with iv out have "isVisible ?c 1 far_heap = Some (False, h1(1 \<mapsto> (refreshed ?k)\<lparr>visible := False\<rparr>))"
    by (simp only: if_True)
  with c k show ?thesis by simp
qed

subsection \<open>Reading what the serializer wrote\<close>

lemma isspace_space: "isspace CHR '' ''"
  by (simp add: isspace_def)

lemma isspace_newline: "isspace CHR 0x0A"
  by (simp add: isspace_def)

lemma sep_Nil: "sep []"
  by (simp add: sep_def)

lemma sep_Cons: "sep (c # t) \<longleftrightarrow> isspace c"
  by (simp add: sep_def)

lemma word_take: "word w \<Longrightarrow> sep t \<Longrightarrow> takeWhile (\<lambda>x. \<not> isspace x) (w @ t) = w"
  by (cases t) (auto simp: word_def sep_def list_all_iff takeWhile_append2 intro: takeWhile_eq_all_conv [THEN iffD2])

lemma word_drop: "word w \<Longrightarrow> sep t \<Longrightarrow> dropWhile (\<lambda>x. \<not> isspace x) (w @ t) = t"
  by (cases t) (auto simp: word_def sep_def list_all_iff dropWhile_append2)

lemma word_skip: "word w \<Longrightarrow> dropWhile isspace (w @ t) = w @ t"
  by (cases w) (auto simp: word_def)

lemma word_cases: "word w \<Longrightarrow> \<exists>c cs. w @ t = c # cs"
  by (cases w) (auto simp: word_def)

lemma next_word_space: "isspace c \<Longrightarrow> next_word (c # t) = next_word t"
  by (simp add: next_word_def)

lemma next_word_indent: "next_word (replicate n CHR '' '' @ t) = next_word t"
  by (induction n) (simp_all add: next_word_space isspace_space)

lemma next_word_word:
  assumes "word w" and "sep t"
  shows "next_word (w @ t) = Some (w, t)"
proof -
  obtain c cs where e: "w @ t = c # cs" using word_cases [OF assms(1)] by blast
  have "dropWhile isspace (w @ t) = c # cs" using word_skip [OF assms(1), of t] e by simp
  moreover have "takeWhile (\<lambda>x. \<not> isspace x) (c # cs) = w"
    using word_take [OF assms] e by simp
  moreover have "dropWhile (\<lambda>x. \<not> isspace x) (c # cs) = t"
    using word_drop [OF assms] e by simp
  ultimately show ?thesis by (simp add: next_word_def)
qed

lemma extract_string_good:
  "extract_string \<lparr>chars = u, failbit = False\<rparr>
     = (case next_word u of
          None \<Rightarrow> (None, \<lparr>chars = [], failbit = True\<rparr>)
        | Some (w, rest) \<Rightarrow> (Some w, \<lparr>chars = rest, failbit = False\<rparr>))"
  by (simp add: extract_string_def split: option.split)

lemma extract_float_good:
  "extract_float codec \<lparr>chars = u, failbit = False\<rparr>
     = (case next_word u of
          None \<Rightarrow> (None, \<lparr>chars = [], failbit = True\<rparr>)
        | Some (w, rest) \<Rightarrow>
            (case read_float codec w of
               Some v \<Rightarrow> (Some v, \<lparr>chars = rest, failbit = False\<rparr>)
             | None \<Rightarrow> (Some 0, \<lparr>chars = rest, failbit = True\<rparr>)))"
  by (simp add: extract_float_def split: option.split)

lemma extract_int_good:
  "extract_int \<lparr>chars = u, failbit = False\<rparr>
     = (case next_word u of
          None \<Rightarrow> (None, \<lparr>chars = [], failbit = True\<rparr>)
        | Some (w, rest) \<Rightarrow>
            (case parse_int w of
               None \<Rightarrow> (Some 0, \<lparr>chars = rest, failbit = True\<rparr>)
             | Some v \<Rightarrow>
                 if INT_MAX < v then (Some INT_MAX, \<lparr>chars = rest, failbit = True\<rparr>)
                 else if v < INT_MIN then (Some INT_MIN, \<lparr>chars = rest, failbit = True\<rparr>)
                 else (Some v, \<lparr>chars = rest, failbit = False\<rparr>)))"
  by (simp add: extract_int_def split: option.split)

lemma extract_string_space:
  "isspace c \<Longrightarrow> extract_string \<lparr>chars = c # t, failbit = False\<rparr>
     = extract_string \<lparr>chars = t, failbit = False\<rparr>"
  by (simp add: extract_string_good next_word_space)

lemma extract_string_indent:
  "extract_string \<lparr>chars = replicate n CHR '' '' @ t, failbit = False\<rparr>
     = extract_string \<lparr>chars = t, failbit = False\<rparr>"
  by (simp add: extract_string_good next_word_indent)

lemma extract_string_word:
  "word w \<Longrightarrow> sep t \<Longrightarrow>
   extract_string \<lparr>chars = w @ t, failbit = False\<rparr> = (Some w, \<lparr>chars = t, failbit = False\<rparr>)"
  by (simp add: extract_string_good next_word_word)

lemma extract_float_space:
  "isspace c \<Longrightarrow> extract_float codec \<lparr>chars = c # t, failbit = False\<rparr>
     = extract_float codec \<lparr>chars = t, failbit = False\<rparr>"
  by (simp add: extract_float_good next_word_space)

lemma extract_float_indent:
  "extract_float codec \<lparr>chars = replicate n CHR '' '' @ t, failbit = False\<rparr>
     = extract_float codec \<lparr>chars = t, failbit = False\<rparr>"
  by (simp add: extract_float_good next_word_indent)

lemma extract_float_word:
  "reads_back codec v \<Longrightarrow> sep t \<Longrightarrow>
   extract_float codec \<lparr>chars = show_float codec v @ t, failbit = False\<rparr>
     = (Some v, \<lparr>chars = t, failbit = False\<rparr>)"
  by (simp add: extract_float_good next_word_word reads_back_def)

lemma extract_int_space:
  "isspace c \<Longrightarrow> extract_int \<lparr>chars = c # t, failbit = False\<rparr>
     = extract_int \<lparr>chars = t, failbit = False\<rparr>"
  by (simp add: extract_int_good next_word_space)

lemma digit_value_char: "d < 10 \<Longrightarrow> digit_value (digit_char d) = Some d"
proof -
  assume "d < 10"
  then have "d \<in> {0, 1, 2, 3, 4, 5, 6, 7, 8, 9}" by auto
  then show ?thesis by (auto simp: digit_char_def)
qed

lemma digit_char_nospace: "d < 10 \<Longrightarrow> \<not> isspace (digit_char d)"
proof -
  assume "d < 10"
  then have "d \<in> {0, 1, 2, 3, 4, 5, 6, 7, 8, 9}" by auto
  then show ?thesis by (auto simp: digit_char_def isspace_def)
qed

lemma digit_char_nosign: "d < 10 \<Longrightarrow> digit_char d \<noteq> CHR ''-'' \<and> digit_char d \<noteq> CHR ''+''"
proof -
  assume "d < 10"
  then have "d \<in> {0, 1, 2, 3, 4, 5, 6, 7, 8, 9}" by auto
  then show ?thesis by (auto simp: digit_char_def)
qed

lemma parse_digits_append:
  "parse_digits (xs @ ys) acc
     = (case parse_digits xs acc of None \<Rightarrow> None | Some a \<Rightarrow> parse_digits ys a)"
  by (induction xs arbitrary: acc) (simp_all split: option.splits)

lemma parse_digits_show_nat: "parse_digits (show_nat n) 0 = Some n"
proof (induction n rule: show_nat.induct)
  case (1 n)
  show ?case
  proof (cases "n < 10")
    case True
    then show ?thesis
      by (subst show_nat.simps) (simp add: digit_value_char del: digit_value.simps)
  next
    case False
    with 1 have "parse_digits (show_nat (n div 10)) 0 = Some (n div 10)" by simp
    with False show ?thesis
      by (subst show_nat.simps)
         (simp add: parse_digits_append digit_value_char del: digit_value.simps)
  qed
qed

lemma show_nat_notnil: "show_nat n \<noteq> []"
  by (subst show_nat.simps) simp

lemma show_nat_nospace: "c \<in> set (show_nat n) \<Longrightarrow> \<not> isspace c"
proof (induction n rule: show_nat.induct)
  case (1 n)
  show ?case
  proof (cases "n < 10")
    case True
    with 1(2) show ?thesis
      by (subst (asm) show_nat.simps) (simp add: digit_char_nospace)
  next
    case False
    with 1 show ?thesis
      by (subst (asm) (2) show_nat.simps) (auto simp: digit_char_nospace)
  qed
qed

lemma show_nat_hd: "\<exists>d cs. d < 10 \<and> show_nat n = digit_char d # cs"
proof (induction n rule: show_nat.induct)
  case (1 n)
  show ?case
  proof (cases "n < 10")
    case True
    then show ?thesis by (subst show_nat.simps) auto
  next
    case False
    with 1 obtain d cs where "d < 10" "show_nat (n div 10) = digit_char d # cs" by blast
    with False show ?thesis by (subst show_nat.simps) auto
  qed
qed

lemma word_show_nat: "word (show_nat n)"
  using show_nat_nospace [of _ n] by (auto simp: word_def show_nat_notnil list_all_iff)

lemma parse_int_show_nat: "parse_int (show_nat n) = Some (int n)"
proof -
  obtain d cs where d: "d < 10" "show_nat n = digit_char d # cs"
    using show_nat_hd by blast
  have "parse_nat (show_nat n) = Some n"
    by (simp add: parse_nat_def show_nat_notnil parse_digits_show_nat)
  with d digit_char_nosign [OF d(1)] show ?thesis
    by (simp add: parse_int_def)
qed

lemma extract_int_count:
  "int n \<le> INT_MAX \<Longrightarrow> sep t \<Longrightarrow>
   extract_int \<lparr>chars = show_nat n @ t, failbit = False\<rparr>
     = (Some (int n), \<lparr>chars = t, failbit = False\<rparr>)"
  by (simp add: extract_int_good next_word_word word_show_nat parse_int_show_nat INT_MIN_def)

lemma blank_simps:
  "blank []" "blank (c # t) \<longleftrightarrow> isspace c \<and> blank t" "blank (a @ b) \<longleftrightarrow> blank a \<and> blank b"
  "blank (replicate n CHR '' '')" "blank newline"
  by (auto simp: blank_def isspace_space isspace_newline newline_def)

lemma next_word_blank: "blank pre \<Longrightarrow> next_word (pre @ t) = next_word t"
  by (induction pre) (simp_all add: blank_def next_word_space)

lemma sep_newline: "sep (newline @ t)"
  by (simp add: newline_def sep_Cons isspace_newline)

lemma sep_space: "sep (CHR '' '' # t)"
  by (simp add: sep_Cons isspace_space)

lemma get_string:
  "blank pre \<Longrightarrow> word w \<Longrightarrow> sep t \<Longrightarrow>
   extract_string \<lparr>chars = pre @ w @ t, failbit = False\<rparr> = (Some w, \<lparr>chars = t, failbit = False\<rparr>)"
  by (simp add: extract_string_good next_word_blank next_word_word)

lemma get_float:
  "blank pre \<Longrightarrow> reads_back codec v \<Longrightarrow> sep t \<Longrightarrow>
   extract_float codec \<lparr>chars = pre @ show_float codec v @ t, failbit = False\<rparr>
     = (Some v, \<lparr>chars = t, failbit = False\<rparr>)"
  by (simp add: extract_float_good next_word_blank next_word_word reads_back_def)

lemma get_count:
  "blank pre \<Longrightarrow> int n \<le> INT_MAX \<Longrightarrow> sep t \<Longrightarrow>
   extract_int \<lparr>chars = pre @ show_nat n @ t, failbit = False\<rparr>
     = (Some (int n), \<lparr>chars = t, failbit = False\<rparr>)"
  by (simp add: extract_int_good next_word_blank next_word_word word_show_nat
        parse_int_show_nat INT_MIN_def)

lemma get_float1:
  "reads_back codec v \<Longrightarrow> sep t \<Longrightarrow>
   extract_float codec \<lparr>chars = CHR '' '' # show_float codec v @ t, failbit = False\<rparr>
     = (Some v, \<lparr>chars = t, failbit = False\<rparr>)"
  using get_float [of "[CHR '' '']" codec v t] by (simp add: blank_simps isspace_space)

lemma get_count1:
  "int n \<le> INT_MAX \<Longrightarrow> sep t \<Longrightarrow>
   extract_int \<lparr>chars = CHR '' '' # show_nat n @ t, failbit = False\<rparr>
     = (Some (int n), \<lparr>chars = t, failbit = False\<rparr>)"
  using get_count [of "[CHR '' '']" n t] by (simp add: blank_simps isspace_space)

lemma read_vec3_written:
  assumes "blank pre" and "word kw" and "vec3_reads_back codec v" and "sep t"
  shows "read_vec3 codec \<lparr>chars = pre @ kw @ CHR '' '' # write_vec3 codec v @ t, failbit = False\<rparr>
           = Inr (v, \<lparr>chars = t, failbit = False\<rparr>)"
proof -
  let ?x = "show_float codec (vx v)" and ?y = "show_float codec (vy v)"
    and ?z = "show_float codec (vz v)"
  have rb: "reads_back codec (vx v)" "reads_back codec (vy v)" "reads_back codec (vz v)"
    using assms(3) by (simp_all add: vec3_reads_back_def)
  have 0: "extract_string \<lparr>chars = pre @ kw @ CHR '' '' # write_vec3 codec v @ t, failbit = False\<rparr>
      = (Some kw, \<lparr>chars = CHR '' '' # ?x @ CHR '' '' # ?y @ CHR '' '' # ?z @ t, failbit = False\<rparr>)"
    using get_string [OF assms(1,2), of "CHR '' '' # write_vec3 codec v @ t"]
    by (simp add: sep_space write_vec3_def)
  have 1: "extract_float codec \<lparr>chars = CHR '' '' # ?x @ CHR '' '' # ?y @ CHR '' '' # ?z @ t, failbit = False\<rparr>
      = (Some (vx v), \<lparr>chars = CHR '' '' # ?y @ CHR '' '' # ?z @ t, failbit = False\<rparr>)"
    by (rule get_float1 [OF rb(1)]) (simp add: sep_space)
  have 2: "extract_float codec \<lparr>chars = CHR '' '' # ?y @ CHR '' '' # ?z @ t, failbit = False\<rparr>
      = (Some (vy v), \<lparr>chars = CHR '' '' # ?z @ t, failbit = False\<rparr>)"
    by (rule get_float1 [OF rb(2)]) (simp add: sep_space)
  have 3: "extract_float codec \<lparr>chars = CHR '' '' # ?z @ t, failbit = False\<rparr>
      = (Some (vz v), \<lparr>chars = t, failbit = False\<rparr>)"
    by (rule get_float1 [OF rb(3) assms(4)])
  show ?thesis
    by (simp add: read_vec3_def 0 1 2 3)
qed

lemma read_rotation_written:
  assumes "blank pre" and "word kw" and "quat_reads_back codec q" and "sep t"
  shows "read_rotation codec \<lparr>chars = pre @ kw @ CHR '' '' # write_rotation codec q @ t, failbit = False\<rparr>
           = Inr (q, \<lparr>chars = t, failbit = False\<rparr>)"
proof -
  let ?x = "show_float codec (qx q)" and ?y = "show_float codec (qy q)"
    and ?z = "show_float codec (qz q)" and ?w = "show_float codec (qw q)"
  have rb: "reads_back codec (qx q)" "reads_back codec (qy q)" "reads_back codec (qz q)"
    "reads_back codec (qw q)"
    using assms(3) by (simp_all add: quat_reads_back_def)
  have 0: "extract_string \<lparr>chars = pre @ kw @ CHR '' '' # write_rotation codec q @ t, failbit = False\<rparr>
      = (Some kw, \<lparr>chars = CHR '' '' # ?x @ CHR '' '' # ?y @ CHR '' '' # ?z @ CHR '' '' # ?w @ t, failbit = False\<rparr>)"
    using get_string [OF assms(1,2), of "CHR '' '' # write_rotation codec q @ t"]
    by (simp add: sep_space write_rotation_def)
  have 1: "extract_float codec \<lparr>chars = CHR '' '' # ?x @ CHR '' '' # ?y @ CHR '' '' # ?z @ CHR '' '' # ?w @ t, failbit = False\<rparr>
      = (Some (qx q), \<lparr>chars = CHR '' '' # ?y @ CHR '' '' # ?z @ CHR '' '' # ?w @ t, failbit = False\<rparr>)"
    by (rule get_float1 [OF rb(1)]) (simp add: sep_space)
  have 2: "extract_float codec \<lparr>chars = CHR '' '' # ?y @ CHR '' '' # ?z @ CHR '' '' # ?w @ t, failbit = False\<rparr>
      = (Some (qy q), \<lparr>chars = CHR '' '' # ?z @ CHR '' '' # ?w @ t, failbit = False\<rparr>)"
    by (rule get_float1 [OF rb(2)]) (simp add: sep_space)
  have 3: "extract_float codec \<lparr>chars = CHR '' '' # ?z @ CHR '' '' # ?w @ t, failbit = False\<rparr>
      = (Some (qz q), \<lparr>chars = CHR '' '' # ?w @ t, failbit = False\<rparr>)"
    by (rule get_float1 [OF rb(3)]) (simp add: sep_space)
  have 4: "extract_float codec \<lparr>chars = CHR '' '' # ?w @ t, failbit = False\<rparr>
      = (Some (qw q), \<lparr>chars = t, failbit = False\<rparr>)"
    by (rule get_float1 [OF rb(4) assms(4)])
  show ?thesis
    by (simp add: read_rotation_def 0 1 2 3 4)
qed

lemma read_box_written:
  assumes "blank pre" and "word kw" and "vec3_reads_back codec (bb_min bb)"
    and "vec3_reads_back codec (bb_max bb)" and "sep t"
  shows "read_box codec \<lparr>chars = pre @ kw @ CHR '' '' # write_vec3 codec (bb_min bb) @ CHR '' ''
            # write_vec3 codec (bb_max bb) @ t, failbit = False\<rparr>
           = Inr (bb, \<lparr>chars = t, failbit = False\<rparr>)"
proof -
  let ?a = "show_float codec (vx (bb_min bb))" and ?b = "show_float codec (vy (bb_min bb))"
    and ?c = "show_float codec (vz (bb_min bb))" and ?d = "show_float codec (vx (bb_max bb))"
    and ?e = "show_float codec (vy (bb_max bb))" and ?f = "show_float codec (vz (bb_max bb))"
  have rb: "reads_back codec (vx (bb_min bb))" "reads_back codec (vy (bb_min bb))"
    "reads_back codec (vz (bb_min bb))" "reads_back codec (vx (bb_max bb))"
    "reads_back codec (vy (bb_max bb))" "reads_back codec (vz (bb_max bb))"
    using assms(3,4) by (simp_all add: vec3_reads_back_def)
  have 0: "extract_string \<lparr>chars = pre @ kw @ CHR '' '' # write_vec3 codec (bb_min bb) @ CHR '' ''
            # write_vec3 codec (bb_max bb) @ t, failbit = False\<rparr>
      = (Some kw, \<lparr>chars = CHR '' '' # ?a @ CHR '' '' # ?b @ CHR '' '' # ?c @ CHR '' '' # ?d @ CHR '' '' # ?e
                     @ CHR '' '' # ?f @ t, failbit = False\<rparr>)"
    using get_string [OF assms(1,2), of "CHR '' '' # write_vec3 codec (bb_min bb) @ CHR '' ''
            # write_vec3 codec (bb_max bb) @ t"]
    by (simp add: sep_space write_vec3_def)
  have 1: "extract_float codec \<lparr>chars = CHR '' '' # ?a @ CHR '' '' # ?b @ CHR '' '' # ?c @ CHR '' '' # ?d @ CHR '' '' # ?e
                     @ CHR '' '' # ?f @ t, failbit = False\<rparr>
      = (Some (vx (bb_min bb)), \<lparr>chars = CHR '' '' # ?b @ CHR '' '' # ?c @ CHR '' '' # ?d @ CHR '' '' # ?e
                     @ CHR '' '' # ?f @ t, failbit = False\<rparr>)"
    by (rule get_float1 [OF rb(1)]) (simp add: sep_space)
  have 2: "extract_float codec \<lparr>chars = CHR '' '' # ?b @ CHR '' '' # ?c @ CHR '' '' # ?d @ CHR '' '' # ?e
                     @ CHR '' '' # ?f @ t, failbit = False\<rparr>
      = (Some (vy (bb_min bb)), \<lparr>chars = CHR '' '' # ?c @ CHR '' '' # ?d @ CHR '' '' # ?e
                     @ CHR '' '' # ?f @ t, failbit = False\<rparr>)"
    by (rule get_float1 [OF rb(2)]) (simp add: sep_space)
  have 3: "extract_float codec \<lparr>chars = CHR '' '' # ?c @ CHR '' '' # ?d @ CHR '' '' # ?e
                     @ CHR '' '' # ?f @ t, failbit = False\<rparr>
      = (Some (vz (bb_min bb)), \<lparr>chars = CHR '' '' # ?d @ CHR '' '' # ?e @ CHR '' '' # ?f @ t, failbit = False\<rparr>)"
    by (rule get_float1 [OF rb(3)]) (simp add: sep_space)
  have 4: "extract_float codec \<lparr>chars = CHR '' '' # ?d @ CHR '' '' # ?e @ CHR '' '' # ?f @ t, failbit = False\<rparr>
      = (Some (vx (bb_max bb)), \<lparr>chars = CHR '' '' # ?e @ CHR '' '' # ?f @ t, failbit = False\<rparr>)"
    by (rule get_float1 [OF rb(4)]) (simp add: sep_space)
  have 5: "extract_float codec \<lparr>chars = CHR '' '' # ?e @ CHR '' '' # ?f @ t, failbit = False\<rparr>
      = (Some (vy (bb_max bb)), \<lparr>chars = CHR '' '' # ?f @ t, failbit = False\<rparr>)"
    by (rule get_float1 [OF rb(5)]) (simp add: sep_space)
  have 6: "extract_float codec \<lparr>chars = CHR '' '' # ?f @ t, failbit = False\<rparr>
      = (Some (vz (bb_max bb)), \<lparr>chars = t, failbit = False\<rparr>)"
    by (rule get_float1 [OF rb(6) assms(5)])
  show ?thesis
    by (simp add: read_box_def 0 1 2 3 4 5 6)
qed

lemma read_count_written:
  assumes "blank pre" and "word kw" and "int n \<le> INT_MAX" and "sep t"
  shows "read_count \<lparr>chars = pre @ kw @ CHR '' '' # show_nat n @ t, failbit = False\<rparr>
           = Inr (int n, \<lparr>chars = t, failbit = False\<rparr>)"
proof -
  have 0: "extract_string \<lparr>chars = pre @ kw @ CHR '' '' # show_nat n @ t, failbit = False\<rparr>
      = (Some kw, \<lparr>chars = CHR '' '' # show_nat n @ t, failbit = False\<rparr>)"
    using get_string [OF assms(1,2), of "CHR '' '' # show_nat n @ t"] by (simp add: sep_space)
  have 1: "extract_int \<lparr>chars = CHR '' '' # show_nat n @ t, failbit = False\<rparr>
      = (Some (int n), \<lparr>chars = t, failbit = False\<rparr>)"
    by (rule get_count1 [OF assms(3,4)])
  show ?thesis
    by (simp add: read_count_def 0 1)
qed

lemma addLevel_sorted:
  "addLevel (distanceThreshold l) (meshName l) \<lparr>levels = acc\<rparr> = \<lparr>levels = acc @ [l]\<rparr>"
  if "sorted (map distanceThreshold (acc @ [l]))"
proof -
  have e: "\<lparr>distanceThreshold = distanceThreshold l, meshName = meshName l\<rparr> = l"
    by (cases l) simp
  have "addLevel (distanceThreshold l) (meshName l) \<lparr>levels = acc\<rparr>
      = \<lparr>levels = sort_key distanceThreshold
                    (acc @ [\<lparr>distanceThreshold = distanceThreshold l, meshName = meshName l\<rparr>])\<rparr>"
    by (simp add: addLevel_def)
  also have "\<dots> = \<lparr>levels = sort_key distanceThreshold (acc @ [l])\<rparr>"
    by (simp only: e)
  also have "\<dots> = \<lparr>levels = acc @ [l]\<rparr>"
    using sort_key_id_if_sorted [OF that] by simp
  finally show ?thesis .
qed

lemma lod_loop_written:
  fixes codec :: "'a::{zero,linorder} codec"
  assumes "\<forall>l\<in>set lvls. reads_back codec (distanceThreshold l) \<and> word (meshName l)"
    and "sorted (map distanceThreshold (acc @ lvls))"
  shows "lod_loop codec (length lvls)
           \<lparr>chars = newline @ concat (map (write_level codec (replicate n CHR '' '')) lvls) @ t,
            failbit = False\<rparr> \<lparr>levels = acc\<rparr>
         = Inr (\<lparr>levels = acc @ lvls\<rparr>, \<lparr>chars = newline @ t, failbit = False\<rparr>)"
  using assms
proof (induction lvls arbitrary: acc)
  case Nil
  show ?case by simp
next
  case (Cons l lvls)
  let ?ind = "replicate n CHR '' ''"
  define R where "R = newline @ concat (map (write_level codec ?ind) lvls) @ t"
  define U1 where "U1 = CHR '' '' # meshName l @ R"
  define U0 where "U0 = (newline @ ?ind @ ''    '') @ show_float codec (distanceThreshold l) @ U1"
  have rb: "reads_back codec (distanceThreshold l)" and w: "word (meshName l)"
    using Cons.prems(1) by simp_all
  have tx: "newline @ concat (map (write_level codec ?ind) (l # lvls)) @ t = U0"
    by (simp add: write_level_def U0_def U1_def R_def)
  have 1: "extract_float codec \<lparr>chars = U0, failbit = False\<rparr>
      = (Some (distanceThreshold l), \<lparr>chars = U1, failbit = False\<rparr>)"
    unfolding U0_def
    by (rule get_float [OF _ rb]) (simp_all add: blank_simps isspace_space sep_space U1_def)
  have 2: "extract_string \<lparr>chars = U1, failbit = False\<rparr>
      = (Some (meshName l), \<lparr>chars = R, failbit = False\<rparr>)"
    using get_string [of "[CHR '' '']" "meshName l" R] w
    by (simp add: blank_simps isspace_space sep_newline U1_def R_def)
  have s: "sorted (map distanceThreshold (acc @ [l]))"
    using Cons.prems(2) by (simp add: sorted_append)
  have ih: "lod_loop codec (length lvls) \<lparr>chars = R, failbit = False\<rparr> \<lparr>levels = acc @ [l]\<rparr>
      = Inr (\<lparr>levels = (acc @ [l]) @ lvls\<rparr>, \<lparr>chars = newline @ t, failbit = False\<rparr>)"
    unfolding R_def using Cons.prems by (intro Cons.IH) simp_all
  show ?case
    unfolding tx by (simp add: 1 2 addLevel_sorted [OF s] ih)
qed

lemma word_keywords:
  "word ''Node''" "word ''Position''" "word ''Rotation''" "word ''Scale''" "word ''LODLevels''"
  "word ''BoundingBox''" "word ''Children''"
  by (simp_all add: word_def isspace_def)

lemma read_fields_written:
  fixes codec :: "'a::{zero,linorder} codec"
  assumes safe: "fields_safe codec n"
    and m: "store st a = Some m" "levels (lod m) = []"
    and inp: "input st = \<lparr>chars = newline @ write_body codec n indent @ rest, failbit = False\<rparr>"
  shows "read_fields codec a st
         = Inr (int (length (children n)),
                st\<lparr>input := \<lparr>chars = newline @ rest, failbit = False\<rparr>,
                   store := (store st)(a \<mapsto> filled m n)\<rparr>)"
proof -
  let ?ind = "replicate indent CHR '' ''"
  let ?pre = "newline @ ?ind @ ''  ''"
  let ?pos = "position (transform n)" and ?rot = "rotation (transform n)"
    and ?scl = "scale (transform n)" and ?lvls = "levels (lod n)" and ?bb = "boundingBox n"
  define T7 where "T7 = newline @ rest"
  define T6 where "T6 = ?pre @ ''Children'' @ CHR '' '' # show_nat (length (children n)) @ T7"
  define T5 where "T5 = ?pre @ ''BoundingBox'' @ CHR '' '' # write_vec3 codec (bb_min ?bb)
      @ CHR '' '' # write_vec3 codec (bb_max ?bb) @ T6"
  define t5 where "t5 = ?ind @ ''  BoundingBox '' @ write_vec3 codec (bb_min ?bb)
      @ CHR '' '' # write_vec3 codec (bb_max ?bb) @ T6"
  define T4 where "T4 = newline @ concat (map (write_level codec ?ind) ?lvls) @ t5"
  define T3 where "T3 = ?pre @ ''LODLevels'' @ CHR '' '' # show_nat (length ?lvls) @ T4"
  define T2 where "T2 = ?pre @ ''Scale'' @ CHR '' '' # write_vec3 codec ?scl @ T3"
  define T1 where "T1 = ?pre @ ''Rotation'' @ CHR '' '' # write_rotation codec ?rot @ T2"
  define T0 where "T0 = ?pre @ ''Position'' @ CHR '' '' # write_vec3 codec ?pos @ T1"
  have T5: "T5 = newline @ t5" by (simp add: T5_def t5_def)
  have tx: "newline @ write_body codec n indent @ rest = T0"
    by (simp add: write_body_def Let_def getPosition_def getRotation_def getScale_def
          T0_def T1_def T2_def T3_def T4_def t5_def T6_def T7_def)
  have pre: "blank ?pre" by (simp add: blank_simps isspace_space)
  have s6: "sep T7" "sep T6" "sep T5" "sep T4" "sep T3" "sep T2" "sep T1"
    by (simp_all add: T7_def T6_def T5_def T4_def T3_def T2_def T1_def sep_newline)
  note sf = safe [unfolded fields_safe_def]
  have r0: "read_vec3 codec \<lparr>chars = T0, failbit = False\<rparr> = Inr (?pos, \<lparr>chars = T1, failbit = False\<rparr>)"
    unfolding T0_def using sf by (intro read_vec3_written pre word_keywords s6) simp
  have r1: "read_rotation codec \<lparr>chars = T1, failbit = False\<rparr> = Inr (?rot, \<lparr>chars = T2, failbit = False\<rparr>)"
    unfolding T1_def using sf by (intro read_rotation_written pre word_keywords s6) simp
  have r2: "read_vec3 codec \<lparr>chars = T2, failbit = False\<rparr> = Inr (?scl, \<lparr>chars = T3, failbit = False\<rparr>)"
    unfolding T2_def using sf by (intro read_vec3_written pre word_keywords s6) simp
  have r3: "read_count \<lparr>chars = T3, failbit = False\<rparr>
      = Inr (int (length ?lvls), \<lparr>chars = T4, failbit = False\<rparr>)"
    unfolding T3_def using sf by (intro read_count_written pre word_keywords s6) simp
  have "sorted (map distanceThreshold ([] @ ?lvls))"
    using sf by (simp add: strict_sorted_imp_sorted)
  with sf have r4: "lod_loop codec (length ?lvls) \<lparr>chars = T4, failbit = False\<rparr> \<lparr>levels = []\<rparr>
      = Inr (\<lparr>levels = [] @ ?lvls\<rparr>, \<lparr>chars = T5, failbit = False\<rparr>)"
    unfolding T4_def T5 by (intro lod_loop_written) simp_all
  have r5: "read_box codec \<lparr>chars = T5, failbit = False\<rparr> = Inr (?bb, \<lparr>chars = T6, failbit = False\<rparr>)"
    unfolding T5_def using sf by (intro read_box_written pre word_keywords s6) simp_all
  have r6: "read_count \<lparr>chars = T6, failbit = False\<rparr>
      = Inr (int (length (children n)), \<lparr>chars = T7, failbit = False\<rparr>)"
    unfolding T6_def using sf by (intro read_count_written pre word_keywords s6) simp
  have lm: "lod m = \<lparr>levels = []\<rparr>" using m(2) by (cases "lod m") simp
  show ?thesis
    unfolding read_fields_def inp tx
    by (simp add: r0 r1 r2 r3 r4 r5 r6 set_node_def m lm filled_def T7_def)
qed

lemma tree_within_is_tree: "tree_within lo hi h a t \<Longrightarrow> is_tree h a t"
proof (induction rule: tree_within.induct)
  case (node a n kids)
  from node(4) have "list_all2 (is_tree h) (children n) kids"
    by (rule list_all2_mono) simp
  with node(3) show ?case by (rule is_tree.node)
qed

lemma tree_within_widen:
  "tree_within lo hi h a t \<Longrightarrow> lo' \<le> lo \<Longrightarrow> hi \<le> hi' \<Longrightarrow> tree_within lo' hi' h a t"
proof (induction rule: tree_within.induct)
  case (node a n kids)
  from node(4) node.prems have "list_all2 (tree_within lo' hi' h) (children n) kids"
    by (auto elim!: list_all2_mono)
  with node show ?case by (intro tree_within.node) auto
qed

lemma tree_within_frame:
  assumes "tree_within lo hi h a t"
    and "\<And>x. lo \<le> x \<Longrightarrow> x < hi \<Longrightarrow>
           h' x = h x \<or> (\<exists>n p. h x = Some n \<and> h' x = Some (n\<lparr>parent := p\<rparr>))"
  shows "tree_within lo hi h' a t"
  using assms(1)
proof (induction rule: tree_within.induct)
  case (node a n kids)
  from node(4) have k: "list_all2 (tree_within lo hi h') (children n) kids"
    by (rule list_all2_mono) simp
  from assms(2) [OF node(1,2)] node(3)
  consider "h' a = Some n" | p where "h' a = Some (n\<lparr>parent := p\<rparr>)" by auto
  then show ?case
  proof cases
    case 1
    with node(1,2) k show ?thesis by (intro tree_within.node)
  next
    case 2
    have "tree_within lo hi h' a
        (Tree (name (n\<lparr>parent := p\<rparr>)) (position (transform (n\<lparr>parent := p\<rparr>)))
           (rotation (transform (n\<lparr>parent := p\<rparr>))) (scale (transform (n\<lparr>parent := p\<rparr>)))
           (boundingBox (n\<lparr>parent := p\<rparr>)) (levels (lod (n\<lparr>parent := p\<rparr>))) kids)"
      using node(1,2) 2 k by (intro tree_within.node) simp_all
    then show ?thesis by simp
  qed
qed

lemma those_map_Some:
  "(\<And>c. c \<in> set cs \<Longrightarrow> \<exists>s. f c = Some s) \<Longrightarrow> \<exists>subs. those (map f cs) = Some subs"
proof (induction cs)
  case Nil
  show ?case by simp
next
  case (Cons c cs)
  then obtain s subs where "f c = Some s" "those (map f cs) = Some subs"
    by (metis list.set_intros(1,2))
  then show ?case by simp
qed

lemma those_Cons:
  "those (x # xs) = Some ys \<longleftrightarrow> (\<exists>y ys'. x = Some y \<and> those xs = Some ys' \<and> ys = y # ys')"
  by (auto split: option.splits)

lemma member_le_sum_list: "k \<in> set ks \<Longrightarrow> f k \<le> sum_list (map f ks)" for f :: "'b \<Rightarrow> nat"
  by (induction ks) auto

lemma list_all2_left: "list_all2 P xs ys \<Longrightarrow> x \<in> set xs \<Longrightarrow> \<exists>y\<in>set ys. P x y"
  by (induction rule: list_all2_induct) auto

lemma subs_length:
  assumes "list_all2 (is_tree h) cs kids" and "those (map f cs) = Some subs"
    and "\<And>kid c s. kid \<in> set kids \<Longrightarrow> is_tree h c kid \<Longrightarrow> f c = Some s \<Longrightarrow> nodes kid \<le> length s"
  shows "sum_list (map nodes kids) \<le> length (concat subs)"
  using assms
proof (induction cs kids arbitrary: subs rule: list_all2_induct)
  case Nil
  then show ?case by simp
next
  case (Cons c cs kid kids)
  from Cons.prems(1) obtain sub subs' where sub: "f c = Some sub"
    "those (map f cs) = Some subs'" "subs = sub # subs'"
    by (auto split: option.splits)
  have "nodes kid \<le> length sub"
    using Cons.hyps(1) sub(1) by (intro Cons.prems(2)) simp_all
  moreover have "sum_list (map nodes kids) \<le> length (concat subs')"
    using sub(2) Cons.prems(2) by (intro Cons.IH) simp_all
  ultimately show ?case using sub(3) by simp
qed

lemma serializeNode_exists:
  "is_tree h a t \<Longrightarrow> nodes t \<le> k \<Longrightarrow> \<exists>s. serializeNode k codec h a indent = Some s"
proof (induction t arbitrary: a k indent)
  case (Tree nm pos rot scl bb lvls kids)
  from Tree.prems(1) obtain n where n: "h a = Some n"
    and ch: "list_all2 (is_tree h) (children n) kids"
    by (auto elim: is_tree.cases)
  from Tree.prems(2) obtain k' where k: "k = Suc k'" and le: "sum_list (map nodes kids) \<le> k'"
    by (cases k) auto
  have "\<exists>s. serializeNode k' codec h c (indent + 4) = Some s" if "c \<in> set (children n)" for c
  proof -
    from list_all2_left [OF ch that] obtain kid where kid: "kid \<in> set kids" "is_tree h c kid"
      by blast
    with le member_le_sum_list [of kid kids nodes] have "nodes kid \<le> k'" by simp
    with kid show ?thesis by (intro Tree.IH)
  qed
  then obtain subs where "those (map (\<lambda>c. serializeNode k' codec h c (indent + 4)) (children n)) = Some subs"
    using those_map_Some [of "children n" "\<lambda>c. serializeNode k' codec h c (indent + 4)"] by blast
  with n k show ?case by simp
qed

lemma nodes_le_length:
  "is_tree h a t \<Longrightarrow> serializeNode k codec h a indent = Some s \<Longrightarrow> nodes t \<le> length s"
proof (induction t arbitrary: a k indent s)
  case (Tree nm pos rot scl bb lvls kids)
  from Tree.prems(1) obtain n where n: "h a = Some n"
    and ch: "list_all2 (is_tree h) (children n) kids"
    by (auto elim: is_tree.cases)
  from Tree.prems(2) n obtain k' subs where k: "k = Suc k'"
    and subs: "those (map (\<lambda>c. serializeNode k' codec h c (indent + 4)) (children n)) = Some subs"
    and s: "s = write_fields codec n indent @ concat subs"
    by (cases k) (auto split: option.splits)
  have "sum_list (map nodes kids) \<le> length (concat subs)"
    using ch subs by (rule subs_length) (rule Tree.IH)
  moreover have "1 \<le> length (write_fields codec n indent)"
    by (simp add: write_fields_def)
  ultimately show ?case using s by simp
qed

lemma addChild_distinct:
  assumes "h a = Some m" and "h c = Some r" and "a \<noteq> c"
  shows "addChild a c h
    = Some (h(c \<mapsto> r\<lparr>parent := Some a\<rparr>, a \<mapsto> m\<lparr>children := children m @ [c]\<rparr>))"
  using assms by (simp add: addChild_def update_node_def)

lemma pstate_eq:
  "st = \<lparr>input = input st, store = store st, next_free = next_free st\<rparr>" for st :: "'a pstate"
  by (cases st) simp

lemma child_loop_written:
  fixes codec :: "'a::{zero,one,uminus,linorder} codec"
  assumes IH: "\<And>kid c text pre st rest.
      kid \<in> set kids \<Longrightarrow> is_tree h0 c kid \<Longrightarrow> serializeNode k0 codec h0 c ind = Some text \<Longrightarrow>
      blank pre \<Longrightarrow> input st = \<lparr>chars = pre @ text @ rest, failbit = False\<rparr> \<Longrightarrow>
      \<exists>h'. deser k codec st
             = Some (Inr (Some (next_free st),
                  \<lparr>input = \<lparr>chars = newline @ rest, failbit = False\<rparr>, store = h',
                   next_free = next_free st + nodes kid\<rparr>))
           \<and> tree_within (next_free st) (next_free st + nodes kid) h' (next_free st) kid
           \<and> (\<forall>x<next_free st. h' x = store st x)"
    and "list_all2 (is_tree h0) cs kids"
    and "those (map (\<lambda>c. serializeNode k0 codec h0 c ind) cs) = Some subs"
    and "input st = \<lparr>chars = newline @ concat subs @ rest, failbit = False\<rparr>"
    and "a < next_free st" and "store st a = Some m"
  shows "\<exists>h' addrs. child_loop (deser k codec) (length kids) a st
             = Some (Inr \<lparr>input = \<lparr>chars = newline @ rest, failbit = False\<rparr>, store = h',
                         next_free = next_free st + sum_list (map nodes kids)\<rparr>)
           \<and> h' a = Some (m\<lparr>children := children m @ addrs\<rparr>)
           \<and> list_all2 (tree_within (next_free st) (next_free st + sum_list (map nodes kids)) h')
                addrs kids
           \<and> (\<forall>x<next_free st. x \<noteq> a \<longrightarrow> h' x = store st x)"
  using assms(2-) IH
proof (induction cs kids arbitrary: subs st m rule: list_all2_induct)
  case Nil
  have "st = \<lparr>input = \<lparr>chars = newline @ rest, failbit = False\<rparr>, store = store st,
              next_free = next_free st\<rparr>"
    using Nil.prems(1,2) pstate_eq [of st] by simp
  then have "child_loop (deser k codec) (length ([] :: 'a tree list)) a st
      = Some (Inr \<lparr>input = \<lparr>chars = newline @ rest, failbit = False\<rparr>, store = store st,
                   next_free = next_free st + sum_list (map nodes ([] :: 'a tree list))\<rparr>)"
    by simp
  moreover have "store st a = Some (m\<lparr>children := children m @ []\<rparr>)"
    using Nil.prems(4) by simp
  ultimately show ?case by blast
next
  case (Cons c cs kid kids)
  let ?nf = "next_free st"
  from Cons.prems(1) obtain sub subs' where sub: "serializeNode k0 codec h0 c ind = Some sub"
    "those (map (\<lambda>c. serializeNode k0 codec h0 c ind) cs) = Some subs'" "subs = sub # subs'"
    by (auto split: option.splits)
  have inp: "input st = \<lparr>chars = newline @ sub @ (concat subs' @ rest), failbit = False\<rparr>"
    using Cons.prems(2) sub(3) by simp
  from Cons.prems(5) [OF _ Cons.hyps(1) sub(1) _ inp]
  obtain h1 where d: "deser k codec st
        = Some (Inr (Some ?nf,
             \<lparr>input = \<lparr>chars = newline @ concat subs' @ rest, failbit = False\<rparr>, store = h1,
              next_free = ?nf + nodes kid\<rparr>))"
    and t1: "tree_within ?nf (?nf + nodes kid) h1 ?nf kid"
    and f1: "\<forall>x<?nf. h1 x = store st x"
    by (auto simp: blank_simps)
  from t1 obtain r where r: "h1 ?nf = Some r" by (auto elim: tree_within.cases)
  have ha: "h1 a = Some m" using f1 Cons.prems(3,4) by simp
  have ne: "a \<noteq> ?nf" using Cons.prems(3) by simp
  let ?m2 = "m\<lparr>children := children m @ [?nf]\<rparr>"
  let ?h2 = "h1(?nf \<mapsto> r\<lparr>parent := Some a\<rparr>, a \<mapsto> ?m2)"
  have ac: "addChild a ?nf h1 = Some ?h2"
    using ha r ne by (rule addChild_distinct)
  let ?st2 = "\<lparr>input = \<lparr>chars = newline @ concat subs' @ rest, failbit = False\<rparr>, store = ?h2,
              next_free = ?nf + nodes kid\<rparr>"
  have step: "child_loop (deser k codec) (length (kid # kids)) a st
      = child_loop (deser k codec) (length kids) a ?st2"
    by (simp add: d ac)
  have "\<exists>h' addrs. child_loop (deser k codec) (length kids) a ?st2
             = Some (Inr \<lparr>input = \<lparr>chars = newline @ rest, failbit = False\<rparr>, store = h',
                         next_free = next_free ?st2 + sum_list (map nodes kids)\<rparr>)
           \<and> h' a = Some (?m2\<lparr>children := children ?m2 @ addrs\<rparr>)
           \<and> list_all2 (tree_within (next_free ?st2) (next_free ?st2 + sum_list (map nodes kids)) h')
                addrs kids
           \<and> (\<forall>x<next_free ?st2. x \<noteq> a \<longrightarrow> h' x = store ?st2 x)"
  proof (rule Cons.IH [OF sub(2)])
    show "input ?st2 = \<lparr>chars = newline @ concat subs' @ rest, failbit = False\<rparr>" by simp
    show "a < next_free ?st2" using Cons.prems(3) by simp
    show "store ?st2 a = Some ?m2" by simp
    fix kid' c' tx pre rest' and st' :: "'a pstate"
    assume "kid' \<in> set kids" and "is_tree h0 c' kid'"
      and "serializeNode k0 codec h0 c' ind = Some tx" and "blank pre"
      and "input st' = \<lparr>chars = pre @ tx @ rest', failbit = False\<rparr>"
    then show "\<exists>h'. deser k codec st'
             = Some (Inr (Some (next_free st'),
                  \<lparr>input = \<lparr>chars = newline @ rest', failbit = False\<rparr>, store = h',
                   next_free = next_free st' + nodes kid'\<rparr>))
           \<and> tree_within (next_free st') (next_free st' + nodes kid') h' (next_free st') kid'
           \<and> (\<forall>x<next_free st'. h' x = store st' x)"
      by (intro Cons.prems(5)) simp_all
  qed
  then obtain h' addrs where
    cl: "child_loop (deser k codec) (length kids) a ?st2
             = Some (Inr \<lparr>input = \<lparr>chars = newline @ rest, failbit = False\<rparr>, store = h',
                         next_free = ?nf + nodes kid + sum_list (map nodes kids)\<rparr>)"
    and ha': "h' a = Some (m\<lparr>children := children m @ ?nf # addrs\<rparr>)"
    and ks: "list_all2 (tree_within (?nf + nodes kid) (?nf + nodes kid + sum_list (map nodes kids)) h')
                addrs kids"
    and f2: "\<forall>x<?nf + nodes kid. x \<noteq> a \<longrightarrow> h' x = ?h2 x"
    by auto
  let ?hi = "?nf + sum_list (map nodes (kid # kids))"
  have "tree_within ?nf (?nf + nodes kid) h' ?nf kid"
  proof (rule tree_within_frame [OF t1])
    fix x assume "?nf \<le> x" and "x < ?nf + nodes kid"
    with f2 Cons.prems(3) have "h' x = ?h2 x" by simp
    with r show "h' x = h1 x \<or> (\<exists>n p. h1 x = Some n \<and> h' x = Some (n\<lparr>parent := p\<rparr>))"
      using \<open>?nf \<le> x\<close> Cons.prems(3) by (cases "x = ?nf") auto
  qed
  then have k1: "tree_within ?nf ?hi h' ?nf kid"
    by (rule tree_within_widen) simp_all
  have k2: "list_all2 (tree_within ?nf ?hi h') addrs kids"
    using ks by (rule list_all2_mono) (auto elim: tree_within_widen)
  have f: "\<forall>x<?nf. x \<noteq> a \<longrightarrow> h' x = store st x"
    using f2 f1 by auto
  have "child_loop (deser k codec) (length (kid # kids)) a st
             = Some (Inr \<lparr>input = \<lparr>chars = newline @ rest, failbit = False\<rparr>, store = h',
                         next_free = ?hi\<rparr>)"
    using step cl by (simp add: add.assoc)
  moreover have "h' a = Some (m\<lparr>children := children m @ (?nf # addrs)\<rparr>)"
    using ha' by simp
  moreover have "list_all2 (tree_within ?nf ?hi h') (?nf # addrs) (kid # kids)"
    using k1 k2 by simp
  ultimately show ?case using f by blast
qed

lemma deser_written:
  fixes codec :: "'a::{zero,one,uminus,linorder} codec"
  assumes "is_tree h0 a0 t" and "tree_safe codec t"
    and "serializeNode k0 codec h0 a0 indent = Some tx" and "nodes t \<le> k"
    and "blank pre" and "input st = \<lparr>chars = pre @ tx @ rest, failbit = False\<rparr>"
  shows "\<exists>h'. deser k codec st
             = Some (Inr (Some (next_free st),
                  \<lparr>input = \<lparr>chars = newline @ rest, failbit = False\<rparr>, store = h',
                   next_free = next_free st + nodes t\<rparr>))
           \<and> tree_within (next_free st) (next_free st + nodes t) h' (next_free st) t
           \<and> (\<forall>x<next_free st. h' x = store st x)"
  using assms
proof (induction t arbitrary: a0 k0 k indent tx pre st rest rule: tree.induct)
  case (Tree nm pos rot scl bb lvls kids)
  let ?t = "Tree nm pos rot scl bb lvls kids"
  let ?nf = "next_free st"
  from Tree.prems(1) obtain n where n: "h0 a0 = Some n"
    and ch: "list_all2 (is_tree h0) (children n) kids"
    and eqs: "nm = name n" "pos = position (transform n)" "rot = rotation (transform n)"
      "scl = scale (transform n)" "bb = boundingBox n" "lvls = levels (lod n)"
    by (auto elim: is_tree.cases)
  from Tree.prems(3) n obtain k0' subs where k0: "k0 = Suc k0'"
    and subs: "those (map (\<lambda>c. serializeNode k0' codec h0 c (indent + 4)) (children n)) = Some subs"
    and tx: "tx = write_fields codec n indent @ concat subs"
    by (cases k0) (auto split: option.splits)
  from Tree.prems(4) obtain k' where k: "k = Suc k'" and le: "sum_list (map nodes kids) \<le> k'"
    by (cases k) auto
  have len: "length (children n) = length kids"
    using ch by (rule list_all2_lengthD)
  have safe: "fields_safe codec n" and wn: "word (name n)"
    and ksafe: "\<And>kid. kid \<in> set kids \<Longrightarrow> tree_safe codec kid"
    using Tree.prems(2) eqs len by (simp_all add: fields_safe_def)
  let ?ind = "replicate indent CHR '' ''"
  define B where "B = newline @ write_body codec n indent @ concat subs @ rest"
  define A where "A = CHR '' '' # name n @ B"
  have inp: "input st = \<lparr>chars = (pre @ ?ind) @ ''Node'' @ A, failbit = False\<rparr>"
    using Tree.prems(6) by (simp add: tx write_fields_def A_def B_def)
  have 1: "extract_string (input st) = (Some ''Node'', \<lparr>chars = A, failbit = False\<rparr>)"
    unfolding inp using Tree.prems(5)
    by (intro get_string) (simp_all add: blank_simps word_keywords A_def sep_space)
  have 2: "extract_string \<lparr>chars = A, failbit = False\<rparr> = (Some (name n), \<lparr>chars = B, failbit = False\<rparr>)"
    using get_string [of "[CHR '' '']" "name n" B] wn
    by (simp add: A_def B_def blank_simps isspace_space sep_newline)
  let ?m = "SceneNode_new (name n) :: 'a SceneNode"
  let ?st1 = "st\<lparr>input := \<lparr>chars = B, failbit = False\<rparr>,
                 store := (store st)(?nf \<mapsto> ?m), next_free := Suc ?nf\<rparr>"
  have 3: "make_shared ?m (st\<lparr>input := \<lparr>chars = B, failbit = False\<rparr>\<rparr>) = (?nf, ?st1)"
    by (simp add: make_shared_def)
  let ?st2 = "?st1\<lparr>input := \<lparr>chars = newline @ concat subs @ rest, failbit = False\<rparr>,
                  store := (store ?st1)(?nf \<mapsto> filled ?m n)\<rparr>"
  have 4: "read_fields codec ?nf ?st1 = Inr (int (length (children n)), ?st2)"
    by (rule read_fields_written [OF safe]) (simp_all add: SceneNode_new_def B_def)
  have "\<exists>h' addrs. child_loop (deser k' codec) (length kids) ?nf ?st2
             = Some (Inr \<lparr>input = \<lparr>chars = newline @ rest, failbit = False\<rparr>, store = h',
                         next_free = next_free ?st2 + sum_list (map nodes kids)\<rparr>)
           \<and> h' ?nf = Some ((filled ?m n)\<lparr>children := children (filled ?m n) @ addrs\<rparr>)
           \<and> list_all2 (tree_within (next_free ?st2) (next_free ?st2 + sum_list (map nodes kids)) h')
                addrs kids
           \<and> (\<forall>x<next_free ?st2. x \<noteq> ?nf \<longrightarrow> h' x = store ?st2 x)"
  proof (rule child_loop_written [OF _ ch subs])
    show "input ?st2 = \<lparr>chars = newline @ concat subs @ rest, failbit = False\<rparr>" by simp
    show "?nf < next_free ?st2" by simp
    show "store ?st2 ?nf = Some (filled ?m n)" by simp
    fix kid c tx' pre' rest' and st' :: "'a pstate"
    assume kid: "kid \<in> set kids" and "is_tree h0 c kid"
      and "serializeNode k0' codec h0 c (indent + 4) = Some tx'" and "blank pre'"
      and "input st' = \<lparr>chars = pre' @ tx' @ rest', failbit = False\<rparr>"
    moreover have "nodes kid \<le> k'"
      using le member_le_sum_list [OF kid, of nodes] by simp
    ultimately show "\<exists>h'. deser k' codec st'
             = Some (Inr (Some (next_free st'),
                  \<lparr>input = \<lparr>chars = newline @ rest', failbit = False\<rparr>, store = h',
                   next_free = next_free st' + nodes kid\<rparr>))
           \<and> tree_within (next_free st') (next_free st' + nodes kid) h' (next_free st') kid
           \<and> (\<forall>x<next_free st'. h' x = store st' x)"
      using ksafe [OF kid] by (intro Tree.IH)
  qed
  then obtain h' addrs where
    cl: "child_loop (deser k' codec) (length kids) ?nf ?st2
             = Some (Inr \<lparr>input = \<lparr>chars = newline @ rest, failbit = False\<rparr>, store = h',
                         next_free = Suc ?nf + sum_list (map nodes kids)\<rparr>)"
    and root: "h' ?nf = Some ((filled ?m n)\<lparr>children := addrs\<rparr>)"
    and ks: "list_all2 (tree_within (Suc ?nf) (Suc ?nf + sum_list (map nodes kids)) h') addrs kids"
    and fr: "\<forall>x<Suc ?nf. x \<noteq> ?nf \<longrightarrow> h' x = store ?st2 x"
    by (auto simp: filled_def SceneNode_new_def)
  have d: "deser k codec st
      = Some (Inr (Some ?nf, \<lparr>input = \<lparr>chars = newline @ rest, failbit = False\<rparr>, store = h',
                              next_free = ?nf + nodes ?t\<rparr>))"
    unfolding k using cl by (simp add: 1 2 3 4 len)
  let ?r = "(filled ?m n)\<lparr>children := addrs\<rparr>"
  have ks': "list_all2 (tree_within ?nf (?nf + nodes ?t) h') (children ?r) kids"
    using ks by (auto elim!: list_all2_mono tree_within_widen)
  have "tree_within ?nf (?nf + nodes ?t) h' ?nf
      (Tree (name ?r) (position (transform ?r)) (rotation (transform ?r)) (scale (transform ?r))
         (boundingBox ?r) (levels (lod ?r)) kids)"
    using root ks' by (intro tree_within.node) simp_all
  then have tw: "tree_within ?nf (?nf + nodes ?t) h' ?nf ?t"
    by (simp add: eqs filled_def SceneNode_new_def setPosition_def setRotation_def setScale_def)
  have "\<forall>x<?nf. h' x = store st x"
    using fr by simp
  with d tw show ?case by blast
qed

lemma istream_of_eq: "istream_of s = \<lparr>chars = s, failbit = False\<rparr>"
  by (simp add: istream_of_def)

text \<open>
  C4, amended. For a subtree whose names and mesh names are words (not empty, no white
  space), whose numbers have a text form that is read back as the same value, whose LOD
  thresholds ascend strictly and whose level and child counts fit an \<open>int\<close>:
  serializing it gives a text, and deserializing that text gives a new subtree that
  reads as the same tree: the same names, positions, rotations, scales, bounding boxes,
  LOD tables and children in the same order. The objects that were live before are
  untouched below the first free address.
\<close>

theorem serialize_deserialize_roundtrip:
  fixes codec :: "'a::{zero,one,uminus,linorder} codec"
  assumes "is_tree h rt t" and "tree_safe codec t"
  shows "\<exists>content h'.
           serialize (nodes t) codec h rt = Some content
         \<and> deserialize codec (Some content) h free
             = Some (Inr (Some free, \<lparr>input = istream_of newline, store = h',
                                      next_free = free + nodes t\<rparr>))
         \<and> is_tree h' free t
         \<and> (\<forall>x<free. h' x = h x)"
proof -
  from serializeNode_exists [OF assms(1) order_refl, of codec 0]
  obtain content where c: "serializeNode (nodes t) codec h rt 0 = Some content" by blast
  have le: "nodes t \<le> Suc (length content)"
    using nodes_le_length [OF assms(1) c] by simp
  let ?st = "\<lparr>input = istream_of content, store = h, next_free = free\<rparr>"
  have "input ?st = \<lparr>chars = [] @ content @ [], failbit = False\<rparr>"
    by (simp add: istream_of_eq)
  from deser_written [OF assms c le _ this]
  obtain h' where "deser (Suc (length content)) codec ?st
             = Some (Inr (Some free, \<lparr>input = \<lparr>chars = newline, failbit = False\<rparr>, store = h',
                   next_free = free + nodes t\<rparr>))"
    and "tree_within free (free + nodes t) h' free t" and "\<forall>x<free. h' x = h x"
    by (auto simp: blank_simps)
  then show ?thesis
    using c tree_within_is_tree [of free "free + nodes t" h' free t]
    by (auto simp: serialize_def deserialize_def istream_of_eq)
qed








































lemma parse_nat_show_nat: "parse_nat (show_nat n) = Some n"
  by (simp add: parse_nat_def show_nat_notnil parse_digits_show_nat)

lemma reads_back_int: "reads_back int_codec i"
proof (cases "i < 0")
  case True
  have "word (CHR ''-'' # show_nat (nat (- i)))"
    using word_show_nat [of "nat (- i)"] by (simp add: word_def isspace_def)
  with True show ?thesis
    by (simp add: reads_back_def int_codec_def show_int_def parse_int_def parse_nat_show_nat)
next
  case False
  then show ?thesis
    by (simp add: reads_back_def int_codec_def show_int_def parse_int_show_nat word_show_nat)
qed

lemma observe_Inl: "observe r = Some (Inl e) \<Longrightarrow> r = Some (Inl e)"
  by (cases r) (auto simp: observe_def map_sum_def split: sum.splits)

text \<open>
  C4 as stated fails on a node whose name has a space: the serializer writes
  \<open>Node my node\<close>, the deserializer reads \<open>my\<close> as the name and \<open>node\<close> as the next
  keyword, fails at \<open>Position\<close> where it expects a number, and goes on to use variables
  that no extraction has assigned; no node with the name \<open>my node\<close> is produced.
\<close>

theorem spaced_name_counterexample:
  "serialize 1 int_codec spaced 0
     = Some (''Node my node'' @ newline @ ''  Position 0 0 0'' @ newline
             @ ''  Rotation 0 0 0 1'' @ newline @ ''  Scale 1 1 1'' @ newline
             @ ''  LODLevels 0'' @ newline @ ''  BoundingBox -1 -1 -1 1 1 1'' @ newline
             @ ''  Children 0'' @ newline)
   \<and> deserialize int_codec (serialize 1 int_codec spaced 0) Map.empty 0
     = Some (Inl Uninitialized_read)"
proof -
  have "observe (deserialize int_codec (serialize 1 int_codec spaced 0) Map.empty 0)
      = Some (Inl Uninitialized_read)"
    by code_simp
  then have "deserialize int_codec (serialize 1 int_codec spaced 0) Map.empty 0
      = Some (Inl Uninitialized_read)"
    by (rule observe_Inl)
  moreover have "serialize 1 int_codec spaced 0
     = Some (''Node my node'' @ newline @ ''  Position 0 0 0'' @ newline
             @ ''  Rotation 0 0 0 1'' @ newline @ ''  Scale 1 1 1'' @ newline
             @ ''  LODLevels 0'' @ newline @ ''  BoundingBox -1 -1 -1 1 1 1'' @ newline
             @ ''  Children 0'' @ newline)"
    by code_simp
  ultimately show ?thesis by (rule conjI [rotated])
qed

lemma scene2_is_tree: "is_tree scene2 0 scene2_tree"
proof -
  let ?kid = "(placed ''kid'' (Vec3 4 5 6) (Some 0) [])
                    \<lparr>lod := addLevel 50 ''low'' (addLevel 10 ''high'' \<lparr>levels = []\<rparr>)\<rparr> :: int SceneNode"
  let ?root = "placed ''root'' (Vec3 1 2 3) None [1] :: int SceneNode"
  have k: "is_tree scene2 1 (Tree (name ?kid) (position (transform ?kid)) (rotation (transform ?kid))
        (scale (transform ?kid)) (boundingBox ?kid) (levels (lod ?kid)) [])"
    by (rule is_tree.node) (simp_all add: scene2_def placed_def)
  have kt: "Tree (name ?kid) (position (transform ?kid)) (rotation (transform ?kid))
        (scale (transform ?kid)) (boundingBox ?kid) (levels (lod ?kid)) []
      = Tree ''kid'' (Vec3 4 5 6) (Quat 1 0 0 0) (Vec3 1 1 1) unit_box
          [\<lparr>distanceThreshold = 10, meshName = ''high''\<rparr>,
           \<lparr>distanceThreshold = 50, meshName = ''low''\<rparr>] []"
    by (simp add: placed_def SceneNode_new_def setPosition_def Transform_new_def vec3_splat_def
          quat_identity_def unit_box_def addLevel_def)
  have "is_tree scene2 0 (Tree (name ?root) (position (transform ?root)) (rotation (transform ?root))
        (scale (transform ?root)) (boundingBox ?root) (levels (lod ?root))
        [Tree ''kid'' (Vec3 4 5 6) (Quat 1 0 0 0) (Vec3 1 1 1) unit_box
          [\<lparr>distanceThreshold = 10, meshName = ''high''\<rparr>,
           \<lparr>distanceThreshold = 50, meshName = ''low''\<rparr>] []])"
    using k [unfolded kt] by (intro is_tree.node) (simp_all add: scene2_def placed_def)
  then show ?thesis
    by (simp add: scene2_tree_def placed_def SceneNode_new_def setPosition_def Transform_new_def
          vec3_splat_def quat_identity_def unit_box_def)
qed

lemma scene2_safe: "tree_safe int_codec scene2_tree"
  by (simp add: scene2_tree_def unit_box_def vec3_reads_back_def quat_reads_back_def
        reads_back_int word_def isspace_def INT_MAX_def)

theorem serialize_deserialize_roundtrip_witness:
  "is_tree scene2 0 scene2_tree \<and> tree_safe int_codec scene2_tree
   \<and> (\<exists>content h'.
         serialize 2 int_codec scene2 0 = Some content
       \<and> deserialize int_codec (Some content) scene2 2
           = Some (Inr (Some 2, \<lparr>input = istream_of newline, store = h', next_free = 4\<rparr>))
       \<and> is_tree h' 2 scene2_tree)"
proof -
  have n: "nodes scene2_tree = 2" by (simp add: scene2_tree_def)
  from serialize_deserialize_roundtrip [OF scene2_is_tree scene2_safe, of 2] scene2_is_tree scene2_safe
  show ?thesis unfolding n by auto
qed

text \<open>
  C5 as stated fails: the rotation with \<open>w = 1, x = 2, y = 3, z = 4\<close> is written
  \<open>2 3 4 1\<close>, and reading that line gives \<open>w = 1, x = 2, y = 3, z = 4\<close> again. The first
  word goes to \<open>x\<close>, not to \<open>w\<close>, and the rotation read is the rotation written.
\<close>

theorem rotation_first_word_counterexample:
  "write_rotation int_codec (Quat 1 2 3 4) = ''2 3 4 1''
   \<and> read_rotation int_codec (istream_of (''  Rotation 2 3 4 1'' @ newline))
     = Inr (Quat 1 2 3 4, istream_of newline)"
  by code_simp

text \<open>
  C5, amended. The serializer writes the rotation as \<open>x y z w\<close>; the deserializer reads the
  four words in that order into \<open>rx, ry, rz, rw\<close> and builds the quaternion \<open>{rw,rx,ry,rz}\<close>,
  whose constructor takes \<open>w\<close> first. So the rotation read from a written line is the
  rotation written, when its four numbers read back as themselves.
\<close>

theorem rotation_read_as_written:
  fixes codec :: "'a::zero codec"
  assumes "quat_reads_back codec q"
  shows "read_rotation codec
           (istream_of (replicate indent CHR '' '' @ ''  Rotation '' @ write_rotation codec q
                        @ newline @ rest))
         = Inr (q, istream_of (newline @ rest))"
proof -
  have "read_rotation codec
          \<lparr>chars = (replicate indent CHR '' '' @ ''  '') @ ''Rotation'' @ CHR '' '' #
             write_rotation codec q @ newline @ rest, failbit = False\<rparr>
        = Inr (q, \<lparr>chars = newline @ rest, failbit = False\<rparr>)"
    using assms
    by (intro read_rotation_written) (simp_all add: blank_simps isspace_space word_keywords sep_newline)
  then show ?thesis by (simp add: istream_of_eq)
qed

theorem rotation_read_as_written_witness:
  "quat_reads_back int_codec (Quat 1 2 3 4)
   \<and> read_rotation int_codec
       (istream_of (replicate 4 CHR '' '' @ ''  Rotation '' @ write_rotation int_codec (Quat 1 2 3 4)
                    @ newline @ ''  Scale 1 1 1''))
     = Inr (Quat 1 2 3 4, istream_of (newline @ ''  Scale 1 1 1''))"
proof -
  have q: "quat_reads_back int_codec (Quat 1 2 3 4)"
    by (simp add: quat_reads_back_def reads_back_int)
  from rotation_read_as_written [OF q, of 4 "''  Scale 1 1 1''"] q show ?thesis by simp
qed



text \<open>
  The same input evaluated: the text of a root that announces two children, cut after the
  first child, gives the root with that one child, on a failed stream.
\<close>

lemma pair_cut:
  "observe (deserialize int_codec
      (Some (write_fields int_codec (placed ''root'' (Vec3 1 2 3) None [1, 2]) 0
             @ write_fields int_codec (placed ''a'' (Vec3 4 5 6) (Some 0) []) 4)) Map.empty 0)
   = Some (Inr (Some 0, ''root'', [1], True))"
  by code_simp

end
